theory Spec2Isabelle
  imports Main "HOL-Library.Word"
begin

unbundle bit_operations_syntax

section \<open>Data model of the neighbor discovery engine (nm-ndisc.c)\<close>

text \<open>
  Modelled from the spec: the item structs, the enum NMNDiscPreference and the flags
  NMNDiscConfigMap are declared in nm-ndisc.h, which is not among the sources. The records
  have the fields the code reads and writes and the spec's data model lists. An IPv6
  address (struct in6_addr) is a 128-bit word, most significant byte first, so
  \<open>s6_addr32[2]\<close> and \<open>s6_addr32[3]\<close> are its low 64 bits and \<open>IN6_ARE_ADDR_EQUAL\<close> is equality.
  Timestamps and lifetimes are guint32. A preference is the integer value of the enum,
  which the code compares with \<open><\<close> and \<open>!=\<close>; the spec orders low < medium < high.
\<close>

type_synonym in6_addr = "128 word"
type_synonym guint32 = "32 word"

definition G_MAXUINT32 :: guint32 where
  "G_MAXUINT32 = 0xFFFFFFFF"

definition G_MAXINT32 :: int where
  "G_MAXINT32 = 2147483647"

definition G_MININT32 :: int where
  "G_MININT32 = - 2147483648"

definition NM_NDISC_PREFERENCE_LOW :: int where
  "NM_NDISC_PREFERENCE_LOW = 1"

definition NM_NDISC_PREFERENCE_MEDIUM :: int where
  "NM_NDISC_PREFERENCE_MEDIUM = 2"

definition NM_NDISC_PREFERENCE_HIGH :: int where
  "NM_NDISC_PREFERENCE_HIGH = 3"

record NMNDiscGateway =
  gw_address :: in6_addr
  gw_timestamp :: guint32
  gw_lifetime :: guint32
  gw_preference :: int

record NMNDiscAddress =
  ad_address :: in6_addr
  ad_dad_counter :: "8 word"
  ad_timestamp :: guint32
  ad_lifetime :: guint32
  ad_preferred :: guint32

record NMNDiscRoute =
  rt_network :: in6_addr
  rt_plen :: nat
  rt_gateway :: in6_addr
  rt_timestamp :: guint32
  rt_lifetime :: guint32
  rt_preference :: int

record NMNDiscDNSServer =
  ds_address :: in6_addr
  ds_timestamp :: guint32
  ds_lifetime :: guint32

text \<open>The domain is a C string pointer: \<open>None\<close> is NULL, and \<open>g_strcmp0\<close> returning 0 is
  equality of the two options.\<close>

record NMNDiscDNSDomain =
  dd_domain :: "string option"
  dd_timestamp :: guint32
  dd_lifetime :: guint32

text \<open>NMNDiscDataInternal: the five GArrays. \<open>_data_complete\<close> hands the same five arrays
  (pointer and length) to the consumer, so the record is also the snapshot of a signal.\<close>

record NMNDiscData =
  gateways :: "NMNDiscGateway list"
  addresses :: "NMNDiscAddress list"
  routes :: "NMNDiscRoute list"
  dns_servers :: "NMNDiscDNSServer list"
  dns_domains :: "NMNDiscDNSDomain list"

text \<open>NMNDiscConfigMap is a flag set; \<open>changed |= X\<close> inserts a flag and \<open>if (changed)\<close> tests
  for the empty set.\<close>

datatype NMNDiscConfigMap =
    NM_NDISC_CONFIG_DHCP_LEVEL
  | NM_NDISC_CONFIG_GATEWAYS
  | NM_NDISC_CONFIG_ADDRESSES
  | NM_NDISC_CONFIG_ROUTES
  | NM_NDISC_CONFIG_DNS_SERVERS
  | NM_NDISC_CONFIG_DNS_DOMAINS

text \<open>What the engine does to the outside, in the order it happens: the two GObject
  signals, the two calls into the transport class (\<open>klass->start\<close>, \<open>klass->send_rs\<close> with
  its result) and a failed \<open>g_return_if_fail\<close> / \<open>g_return_val_if_reached\<close>.\<close>

datatype ndisc_effect =
    CONFIG_CHANGED NMNDiscData "NMNDiscConfigMap set"
  | RA_TIMEOUT
  | KLASS_START
  | KLASS_SEND_RS bool
  | CRITICAL string

datatype NMSettingIP6ConfigAddrGenMode =
    ADDR_GEN_MODE_EUI64
  | ADDR_GEN_MODE_STABLE_PRIVACY

text \<open>The immutable values of NMNDiscPrivate (construct-only properties).\<close>

record NMNDiscConfig =
  ifindex :: int
  ifname :: string
  network_id :: string
  addr_gen_mode :: NMSettingIP6ConfigAddrGenMode
  stable_type :: int
  max_addresses :: int
  router_solicitations :: int
  router_solicitation_interval :: int

text \<open>The mutable part of NMNDiscPrivate. A GLib source id is \<open>None\<close> when the field is 0
  and otherwise holds the interval (seconds) the pending timer was armed with. The
  \<open>effects\<close> list records the observable effects, oldest first.\<close>

record NMNDiscPrivate =
  rdata :: NMNDiscData
  solicitations_left :: int
  send_rs_id :: "nat option"
  last_rs :: int
  ra_timeout_id :: "nat option"
  timeout_id :: "nat option"
  last_send_rs_error :: "string option"
  iid :: "64 word"
  hop_limit :: int
  effects :: "ndisc_effect list"

text \<open>Two's complement wrap-around of gint32 and gint64 arithmetic, and the conversion of
  a signed value to guint (32 bits).\<close>

definition s32 :: "int \<Rightarrow> int" where
  "s32 x = signed_take_bit 31 x"

definition s64 :: "int \<Rightarrow> int" where
  "s64 x = signed_take_bit 63 x"

definition u32 :: "int \<Rightarrow> nat" where
  "u32 x = nat (x mod 2 ^ 32)"

definition CLAMP :: "int \<Rightarrow> int \<Rightarrow> int \<Rightarrow> int" where
  "CLAMP x low high = (if x > high then high else if x < low then low else x)"

text \<open>\<open>g_array_insert_val\<close> at an index within the array; every call site inserts at an
  index that is at most the length.\<close>

definition g_array_insert_val :: "'a list \<Rightarrow> nat \<Rightarrow> 'a \<Rightarrow> 'a list" where
  "g_array_insert_val xs i v = take i xs @ v # drop i xs"

definition nm_ndisc_init :: NMNDiscPrivate where
  "nm_ndisc_init =
     \<lparr> rdata = \<lparr> gateways = [], addresses = [], routes = [], dns_servers = [],
                 dns_domains = [] \<rparr>,
       solicitations_left = 0,
       send_rs_id = None,
       last_rs = G_MININT32,
       ra_timeout_id = None,
       timeout_id = None,
       last_send_rs_error = None,
       iid = 0,
       hop_limit = 64,
       effects = [] \<rparr>"

definition emit_config_change :: "NMNDiscConfigMap set \<Rightarrow> NMNDiscPrivate \<Rightarrow> NMNDiscPrivate" where
  "emit_config_change changed priv =
     priv\<lparr>effects := effects priv @ [CONFIG_CHANGED (rdata priv) changed]\<rparr>"

section \<open>The learned-item store: the five add operations\<close>

text \<open>
  Each scan loop \<open>for (i = 0; i < len; i++)\<close> is a recursion over the array split at the
  loop index: \<open>kept\<close> holds the elements below \<open>i\<close> (so \<open>i = length kept\<close>) and the second list
  the elements from \<open>i\<close> on. \<open>g_array_remove_index (a, i--)\<close> followed by the loop's \<open>i++\<close>
  drops the head of the second list and leaves \<open>kept\<close> as it is.
\<close>

fun add_gateway_loop ::
  "NMNDiscGateway \<Rightarrow> NMNDiscGateway list \<Rightarrow> NMNDiscGateway list \<Rightarrow> int
     \<Rightarrow> bool \<times> NMNDiscGateway list" where
  "add_gateway_loop new kept [] insert_idx =
     (if gw_lifetime new \<noteq> 0
      then (True, g_array_insert_val kept (nat (max insert_idx 0)) new)
      else (False, kept))"
| "add_gateway_loop new kept (item # rest) insert_idx =
     (if gw_address item = gw_address new then
        (if gw_lifetime new = 0 then (True, kept @ rest)
         else if gw_preference item \<noteq> gw_preference new
           then add_gateway_loop new kept rest insert_idx
         else (False, kept @ new # rest))
      else add_gateway_loop new (kept @ [item]) rest
             (if gw_preference item < gw_preference new \<and> insert_idx < 0
              then int (length kept) else insert_idx))"

definition nm_ndisc_add_gateway ::
  "NMNDiscGateway \<Rightarrow> NMNDiscPrivate \<Rightarrow> bool \<times> NMNDiscPrivate" where
  "nm_ndisc_add_gateway new priv =
     (let (changed, gws) = add_gateway_loop new [] (gateways (rdata priv)) (- 1)
      in (changed, priv\<lparr>rdata := (rdata priv)\<lparr>gateways := gws\<rparr>\<rparr>))"

subsection \<open>Address completion\<close>

text \<open>
  Modelled from the spec: \<open>nm_utils_ipv6_addr_set_interface_identifier\<close> and
  \<open>nm_utils_ipv6_addr_set_stable_privacy\<close> are helpers of nm-utils, which is not among the
  sources. The first overlays the 64-bit interface identifier on the low 64 bits of the
  address. The second derives 64 low bits from (stable type, prefix, ifname, network id,
  DAD counter) and writes them into the low 64 bits, or fails and leaves the address as it
  is; the derivation itself is the parameter \<open>derive\<close> of the model.
\<close>

type_synonym stable_privacy_fn =
  "int \<Rightarrow> in6_addr \<Rightarrow> string \<Rightarrow> string \<Rightarrow> 8 word \<Rightarrow> 64 word option"

definition nm_utils_ipv6_addr_set_interface_identifier :: "in6_addr \<Rightarrow> 64 word \<Rightarrow> in6_addr" where
  "nm_utils_ipv6_addr_set_interface_identifier addr ident =
     (push_bit 64 (drop_bit 64 addr)) OR ucast ident"

definition nm_utils_ipv6_addr_set_stable_privacy ::
  "stable_privacy_fn \<Rightarrow> int \<Rightarrow> in6_addr \<Rightarrow> string \<Rightarrow> string \<Rightarrow> 8 word \<Rightarrow> bool \<times> in6_addr" where
  "nm_utils_ipv6_addr_set_stable_privacy derive stype addr name netid dad_counter =
     (case derive stype addr name netid dad_counter of
        None \<Rightarrow> (False, addr)
      | Some ident \<Rightarrow> (True, nm_utils_ipv6_addr_set_interface_identifier addr ident))"

text \<open>\<open>complete_address\<close> works on the caller's struct through a pointer: the model returns
  the result together with the struct as the call leaves it. The argument
  \<open>addr->dad_counter++\<close> is evaluated before the helper runs, whatever the helper returns.\<close>

definition complete_address ::
  "stable_privacy_fn \<Rightarrow> NMNDiscConfig \<Rightarrow> NMNDiscPrivate \<Rightarrow> NMNDiscAddress
     \<Rightarrow> bool \<times> NMNDiscAddress" where
  "complete_address derive cfg priv addr =
     (if addr_gen_mode cfg = ADDR_GEN_MODE_STABLE_PRIVACY then
        (let (ok, a) = nm_utils_ipv6_addr_set_stable_privacy derive (stable_type cfg)
                         (ad_address addr) (ifname cfg) (network_id cfg) (ad_dad_counter addr);
             addr' = addr\<lparr>ad_address := a, ad_dad_counter := ad_dad_counter addr + 1\<rparr>
         in if \<not> ok then (False, addr') else (True, addr'))
      else if iid priv = 0 then (False, addr)
      else if take_bit 64 (ad_address addr) = 0 then
        (True, addr\<lparr>ad_address :=
                  nm_utils_ipv6_addr_set_interface_identifier (ad_address addr) (iid priv)\<rparr>)
      else (False, addr))"

text \<open>The address scan returns from inside the loop on an identity match (\<open>Some\<close>) and
  falls through to the cap check otherwise (\<open>None\<close>).\<close>

fun add_address_loop ::
  "NMNDiscAddress \<Rightarrow> NMNDiscAddress list \<Rightarrow> NMNDiscAddress list
     \<Rightarrow> (bool \<times> NMNDiscAddress list) option" where
  "add_address_loop new kept [] = None"
| "add_address_loop new kept (item # rest) =
     (if ad_address item = ad_address new then
        (if ad_lifetime new = 0 then Some (True, kept @ rest)
         else Some (ad_timestamp item + ad_lifetime item \<noteq> ad_timestamp new + ad_lifetime new
                    \<or> ad_timestamp item + ad_preferred item \<noteq> ad_timestamp new + ad_preferred new,
                    kept @ new # rest))
      else add_address_loop new (kept @ [item]) rest)"

definition nm_ndisc_complete_and_add_address ::
  "stable_privacy_fn \<Rightarrow> NMNDiscConfig \<Rightarrow> NMNDiscAddress \<Rightarrow> NMNDiscPrivate
     \<Rightarrow> bool \<times> NMNDiscAddress \<times> NMNDiscPrivate" where
  "nm_ndisc_complete_and_add_address derive cfg new0 priv =
     (let (ok, new) = complete_address derive cfg priv new0 in
      if \<not> ok then (False, new, priv)
      else
        (case add_address_loop new [] (addresses (rdata priv)) of
           Some (changed, arr) \<Rightarrow> (changed, new, priv\<lparr>rdata := (rdata priv)\<lparr>addresses := arr\<rparr>\<rparr>)
         | None \<Rightarrow>
             if max_addresses cfg \<noteq> 0
                \<and> length (addresses (rdata priv)) \<ge> u32 (max_addresses cfg)
             then (False, new, priv)
             else if ad_lifetime new \<noteq> 0 then
               (True, new,
                priv\<lparr>rdata := (rdata priv)\<lparr>addresses :=
                  g_array_insert_val (addresses (rdata priv)) (length (addresses (rdata priv))) new\<rparr>\<rparr>)
             else (False, new, priv)))"

subsection \<open>Routes, DNS servers, DNS domains\<close>

fun add_route_loop ::
  "NMNDiscRoute \<Rightarrow> NMNDiscRoute list \<Rightarrow> NMNDiscRoute list \<Rightarrow> int
     \<Rightarrow> bool \<times> NMNDiscRoute list" where
  "add_route_loop new kept [] insert_idx =
     (if rt_lifetime new \<noteq> 0
      then (True, g_array_insert_val kept (nat (CLAMP insert_idx 0 G_MAXINT32)) new)
      else (False, kept))"
| "add_route_loop new kept (item # rest) insert_idx =
     (if rt_network item = rt_network new \<and> rt_plen item = rt_plen new then
        (if rt_lifetime new = 0 then (True, kept @ rest)
         else if rt_preference item \<noteq> rt_preference new
           then add_route_loop new kept rest insert_idx
         else (False, kept @ new # rest))
      else add_route_loop new (kept @ [item]) rest
             (if rt_preference item < rt_preference new \<and> insert_idx < 0
              then int (length kept) else insert_idx))"

definition nm_ndisc_add_route ::
  "NMNDiscRoute \<Rightarrow> NMNDiscPrivate \<Rightarrow> bool \<times> NMNDiscPrivate" where
  "nm_ndisc_add_route new priv =
     (if rt_plen new = 0 \<or> rt_plen new > 128
      then (False, priv\<lparr>effects := effects priv @ [CRITICAL ''should not be reached'']\<rparr>)
      else
        (let (changed, rts) = add_route_loop new [] (routes (rdata priv)) (- 1)
         in (changed, priv\<lparr>rdata := (rdata priv)\<lparr>routes := rts\<rparr>\<rparr>)))"

fun add_dns_server_loop ::
  "NMNDiscDNSServer \<Rightarrow> NMNDiscDNSServer list \<Rightarrow> NMNDiscDNSServer list
     \<Rightarrow> bool \<times> NMNDiscDNSServer list" where
  "add_dns_server_loop new kept [] =
     (if ds_lifetime new \<noteq> 0
      then (True, g_array_insert_val kept (length kept) new)
      else (False, kept))"
| "add_dns_server_loop new kept (item # rest) =
     (if ds_address item = ds_address new then
        (if ds_lifetime new = 0 then (True, kept @ rest)
         else if ds_timestamp item \<noteq> ds_timestamp new \<or> ds_lifetime item \<noteq> ds_lifetime new
           then (True, kept @ new # rest)
         else (False, kept @ item # rest))
      else add_dns_server_loop new (kept @ [item]) rest)"

definition nm_ndisc_add_dns_server ::
  "NMNDiscDNSServer \<Rightarrow> NMNDiscPrivate \<Rightarrow> bool \<times> NMNDiscPrivate" where
  "nm_ndisc_add_dns_server new priv =
     (let (changed, arr) = add_dns_server_loop new [] (dns_servers (rdata priv))
      in (changed, priv\<lparr>rdata := (rdata priv)\<lparr>dns_servers := arr\<rparr>\<rparr>))"

text \<open>On insertion the domain string is duplicated (\<open>g_strdup\<close>): the stored item has an
  equal string of its own.\<close>

fun add_dns_domain_loop ::
  "NMNDiscDNSDomain \<Rightarrow> NMNDiscDNSDomain list \<Rightarrow> NMNDiscDNSDomain list
     \<Rightarrow> bool \<times> NMNDiscDNSDomain list" where
  "add_dns_domain_loop new kept [] =
     (if dd_lifetime new \<noteq> 0
      then (True, g_array_insert_val kept (length kept) (new\<lparr>dd_domain := dd_domain new\<rparr>))
      else (False, kept))"
| "add_dns_domain_loop new kept (item # rest) =
     (if dd_domain item = dd_domain new then
        (if dd_lifetime new = 0 then (True, kept @ rest)
         else
           (let changed = (dd_timestamp item \<noteq> dd_timestamp new
                           \<or> dd_lifetime item \<noteq> dd_lifetime new)
            in if changed
               then (changed, kept @ item\<lparr>dd_timestamp := dd_timestamp new,
                                          dd_lifetime := dd_lifetime new\<rparr> # rest)
               else (changed, kept @ item # rest)))
      else add_dns_domain_loop new (kept @ [item]) rest)"

definition nm_ndisc_add_dns_domain ::
  "NMNDiscDNSDomain \<Rightarrow> NMNDiscPrivate \<Rightarrow> bool \<times> NMNDiscPrivate" where
  "nm_ndisc_add_dns_domain new priv =
     (let (changed, arr) = add_dns_domain_loop new [] (dns_domains (rdata priv))
      in (changed, priv\<lparr>rdata := (rdata priv)\<lparr>dns_domains := arr\<rparr>\<rparr>))"

section \<open>The solicitation pacer\<close>

text \<open>
  The clock \<open>nm_utils_get_monotonic_timestamp_s ()\<close> is the parameter \<open>clk\<close> (a gint32).
  The results of \<open>nm_ndisc_netns_push\<close> and of the transport's \<open>klass->send_rs\<close> are
  parameters of the tick: \<open>send_result\<close> is \<open>None\<close> when the send succeeded and the error
  message otherwise.
\<close>

definition solicit :: "NMNDiscConfig \<Rightarrow> int \<Rightarrow> NMNDiscPrivate \<Rightarrow> NMNDiscPrivate" where
  "solicit cfg clk priv =
     (if send_rs_id priv \<noteq> None then priv
      else
        (let now = clk;
             p1 = priv\<lparr>solicitations_left := router_solicitations cfg\<rparr>;
             next0 = s64 (s64 (last_rs p1 + router_solicitation_interval cfg) - now);
             next1 = CLAMP next0 0 G_MAXINT32
         in p1\<lparr>send_rs_id := Some (u32 next1)\<rparr>))"

definition send_rs_timeout ::
  "NMNDiscConfig \<Rightarrow> int \<Rightarrow> bool \<Rightarrow> string option \<Rightarrow> NMNDiscPrivate \<Rightarrow> NMNDiscPrivate" where
  "send_rs_timeout cfg clk netns_ok send_result priv =
     (let p0 = priv\<lparr>send_rs_id := None\<rparr> in
      if \<not> netns_ok then p0
      else
        (let p1 = (case send_result of
                     None \<Rightarrow>
                       p0\<lparr>effects := effects p0 @ [KLASS_SEND_RS True],
                          solicitations_left := s32 (solicitations_left p0 - 1),
                          last_send_rs_error := None\<rparr>
                   | Some message \<Rightarrow>
                       (let different_message = (last_send_rs_error p0 \<noteq> Some message);
                            p0' = p0\<lparr>effects := effects p0 @ [KLASS_SEND_RS False]\<rparr>
                        in if different_message
                           then p0'\<lparr>last_send_rs_error := Some message\<rparr>
                           else p0'));
             p2 = p1\<lparr>last_rs := clk\<rparr>
         in if solicitations_left p2 > 0
            then p2\<lparr>send_rs_id := Some (u32 (router_solicitation_interval cfg))\<rparr>
            else p2))"

text \<open>A burst: the GLib main loop fires \<open>send_rs_timeout\<close> as long as the send timer is
  pending. Each tick carries the clock, the result of the netns push and the result of
  the transport's send.\<close>

type_synonym rs_tick = "int \<times> bool \<times> string option"

fun rs_burst :: "NMNDiscConfig \<Rightarrow> rs_tick list \<Rightarrow> NMNDiscPrivate \<Rightarrow> NMNDiscPrivate" where
  "rs_burst cfg [] priv = priv"
| "rs_burst cfg ((clk, netns_ok, send_result) # ticks) priv =
     (if send_rs_id priv = None then priv
      else rs_burst cfg ticks (send_rs_timeout cfg clk netns_ok send_result priv))"

fun is_send_rs :: "ndisc_effect \<Rightarrow> bool" where
  "is_send_rs (KLASS_SEND_RS ok) = True"
| "is_send_rs other = False"

text \<open>The effects a run added to the effects it started with.\<close>

definition new_effects :: "NMNDiscPrivate \<Rightarrow> NMNDiscPrivate \<Rightarrow> ndisc_effect list" where
  "new_effects before after = drop (length (effects before)) (effects after)"

section \<open>The engine facade\<close>

definition nm_ndisc_set_iid ::
  "NMNDiscConfig \<Rightarrow> int \<Rightarrow> 64 word \<Rightarrow> NMNDiscPrivate \<Rightarrow> bool \<times> NMNDiscPrivate" where
  "nm_ndisc_set_iid cfg clk new_iid priv =
     (if iid priv \<noteq> new_iid then
        (let p1 = priv\<lparr>iid := new_iid\<rparr> in
         if addr_gen_mode cfg = ADDR_GEN_MODE_STABLE_PRIVACY then (False, p1)
         else if addresses (rdata p1) \<noteq> [] then
           (let p2 = p1\<lparr>rdata := (rdata p1)\<lparr>addresses := []\<rparr>\<rparr>;
                p3 = emit_config_change {NM_NDISC_CONFIG_ADDRESSES} p2
            in (True, solicit cfg clk p3))
         else (True, p1))
      else (False, priv))"

definition ndisc_ra_timeout_cb :: "NMNDiscPrivate \<Rightarrow> NMNDiscPrivate" where
  "ndisc_ra_timeout_cb priv =
     (let p1 = priv\<lparr>ra_timeout_id := None\<rparr>
      in p1\<lparr>effects := effects p1 @ [RA_TIMEOUT]\<rparr>)"

text \<open>\<open>klass_start\<close> says whether the class has a \<open>start\<close> hook; \<open>netns_ok\<close> is the result of
  \<open>nm_ndisc_netns_push\<close>.\<close>

definition nm_ndisc_start ::
  "NMNDiscConfig \<Rightarrow> int \<Rightarrow> bool \<Rightarrow> bool \<Rightarrow> NMNDiscPrivate \<Rightarrow> NMNDiscPrivate" where
  "nm_ndisc_start cfg clk klass_start netns_ok priv =
     (if \<not> klass_start
      then priv\<lparr>effects := effects priv @ [CRITICAL ''klass->start'']\<rparr>
      else if ra_timeout_id priv \<noteq> None
      then priv\<lparr>effects := effects priv @ [CRITICAL ''!priv->ra_timeout_id'']\<rparr>
      else if \<not> netns_ok then priv
      else
        (let ra_wait_secs0 =
               s64 (s64 (router_solicitations cfg * router_solicitation_interval cfg) + 1);
             ra_wait_secs = CLAMP ra_wait_secs0 30 120;
             p1 = priv\<lparr>ra_timeout_id := Some (u32 ra_wait_secs)\<rparr>;
             p2 = p1\<lparr>effects := effects p1 @ [KLASS_START]\<rparr>
         in solicit cfg clk p2))"

fun dad_failed_loop ::
  "stable_privacy_fn \<Rightarrow> NMNDiscConfig \<Rightarrow> NMNDiscPrivate \<Rightarrow> in6_addr
     \<Rightarrow> NMNDiscAddress list \<Rightarrow> NMNDiscAddress list \<Rightarrow> bool
     \<Rightarrow> NMNDiscAddress list \<times> bool" where
  "dad_failed_loop derive cfg priv address kept [] changed = (kept, changed)"
| "dad_failed_loop derive cfg priv address kept (item # rest) changed =
     (if ad_address item \<noteq> address
      then dad_failed_loop derive cfg priv address (kept @ [item]) rest changed
      else
        (let (ok, item') = complete_address derive cfg priv item in
         if \<not> ok then dad_failed_loop derive cfg priv address kept rest True
         else dad_failed_loop derive cfg priv address (kept @ [item']) rest True))"

definition nm_ndisc_dad_failed ::
  "stable_privacy_fn \<Rightarrow> NMNDiscConfig \<Rightarrow> in6_addr \<Rightarrow> NMNDiscPrivate \<Rightarrow> NMNDiscPrivate" where
  "nm_ndisc_dad_failed derive cfg address priv =
     (let (arr, changed) =
            dad_failed_loop derive cfg priv address [] (addresses (rdata priv)) False;
          p1 = priv\<lparr>rdata := (rdata priv)\<lparr>addresses := arr\<rparr>\<rparr>
      in if changed then emit_config_change {NM_NDISC_CONFIG_ADDRESSES} p1 else p1)"

section \<open>The expiry sweeper\<close>

text \<open>
  \<open>expiry\<close> and \<open>refresh\<close> are guint64 sums of two guint32 values; they stay below \<open>2 ^ 33\<close>, so
  they are natural numbers here and comparing a guint32 with them compares the unsigned
  values. The assignment \<open>*nextevent = expiry\<close> truncates to 32 bits (\<open>word_of_nat\<close>).
\<close>

fun clean_gateways_loop ::
  "guint32 \<Rightarrow> NMNDiscGateway list \<Rightarrow> NMNDiscGateway list \<Rightarrow> NMNDiscConfigMap set \<Rightarrow> guint32
     \<Rightarrow> NMNDiscGateway list \<times> NMNDiscConfigMap set \<times> guint32" where
  "clean_gateways_loop now kept [] changed nextevent = (kept, changed, nextevent)"
| "clean_gateways_loop now kept (item # rest) changed nextevent =
     (let expiry = unat (gw_timestamp item) + unat (gw_lifetime item) in
      if gw_lifetime item = G_MAXUINT32
        then clean_gateways_loop now (kept @ [item]) rest changed nextevent
      else if unat now \<ge> expiry
        then clean_gateways_loop now kept rest (changed \<union> {NM_NDISC_CONFIG_GATEWAYS}) nextevent
      else if unat nextevent > expiry
        then clean_gateways_loop now (kept @ [item]) rest changed (word_of_nat expiry)
      else clean_gateways_loop now (kept @ [item]) rest changed nextevent)"

fun clean_addresses_loop ::
  "guint32 \<Rightarrow> NMNDiscAddress list \<Rightarrow> NMNDiscAddress list \<Rightarrow> NMNDiscConfigMap set \<Rightarrow> guint32
     \<Rightarrow> NMNDiscAddress list \<times> NMNDiscConfigMap set \<times> guint32" where
  "clean_addresses_loop now kept [] changed nextevent = (kept, changed, nextevent)"
| "clean_addresses_loop now kept (item # rest) changed nextevent =
     (let expiry = unat (ad_timestamp item) + unat (ad_lifetime item) in
      if ad_lifetime item = G_MAXUINT32
        then clean_addresses_loop now (kept @ [item]) rest changed nextevent
      else if unat now \<ge> expiry
        then clean_addresses_loop now kept rest (changed \<union> {NM_NDISC_CONFIG_ADDRESSES}) nextevent
      else if unat nextevent > expiry
        then clean_addresses_loop now (kept @ [item]) rest changed (word_of_nat expiry)
      else clean_addresses_loop now (kept @ [item]) rest changed nextevent)"

fun clean_routes_loop ::
  "guint32 \<Rightarrow> NMNDiscRoute list \<Rightarrow> NMNDiscRoute list \<Rightarrow> NMNDiscConfigMap set \<Rightarrow> guint32
     \<Rightarrow> NMNDiscRoute list \<times> NMNDiscConfigMap set \<times> guint32" where
  "clean_routes_loop now kept [] changed nextevent = (kept, changed, nextevent)"
| "clean_routes_loop now kept (item # rest) changed nextevent =
     (let expiry = unat (rt_timestamp item) + unat (rt_lifetime item) in
      if rt_lifetime item = G_MAXUINT32
        then clean_routes_loop now (kept @ [item]) rest changed nextevent
      else if unat now \<ge> expiry
        then clean_routes_loop now kept rest (changed \<union> {NM_NDISC_CONFIG_ROUTES}) nextevent
      else if unat nextevent > expiry
        then clean_routes_loop now (kept @ [item]) rest changed (word_of_nat expiry)
      else clean_routes_loop now (kept @ [item]) rest changed nextevent)"

text \<open>The two DNS passes call \<open>solicit\<close>, which changes the pacer fields of the private
  data but none of the arrays, so the loop threads the private data beside the array.\<close>

fun clean_dns_servers_loop ::
  "NMNDiscConfig \<Rightarrow> int \<Rightarrow> guint32 \<Rightarrow> NMNDiscDNSServer list \<Rightarrow> NMNDiscDNSServer list
     \<Rightarrow> NMNDiscConfigMap set \<Rightarrow> guint32 \<Rightarrow> NMNDiscPrivate
     \<Rightarrow> NMNDiscDNSServer list \<times> NMNDiscConfigMap set \<times> guint32 \<times> NMNDiscPrivate" where
  "clean_dns_servers_loop cfg clk now kept [] changed nextevent priv =
     (kept, changed, nextevent, priv)"
| "clean_dns_servers_loop cfg clk now kept (item # rest) changed nextevent priv =
     (let expiry = unat (ds_timestamp item) + unat (ds_lifetime item);
          refresh = unat (ds_timestamp item) + unat (ds_lifetime item) div 2 in
      if ds_lifetime item = G_MAXUINT32
        then clean_dns_servers_loop cfg clk now (kept @ [item]) rest changed nextevent priv
      else if unat now \<ge> expiry
        then clean_dns_servers_loop cfg clk now kept rest
               (changed \<union> {NM_NDISC_CONFIG_DNS_SERVERS}) nextevent priv
      else if unat now \<ge> refresh
        then clean_dns_servers_loop cfg clk now (kept @ [item]) rest changed nextevent
               (solicit cfg clk priv)
      else if unat nextevent > refresh
        then clean_dns_servers_loop cfg clk now (kept @ [item]) rest changed
               (word_of_nat refresh) priv
      else clean_dns_servers_loop cfg clk now (kept @ [item]) rest changed nextevent priv)"

fun clean_dns_domains_loop ::
  "NMNDiscConfig \<Rightarrow> int \<Rightarrow> guint32 \<Rightarrow> NMNDiscDNSDomain list \<Rightarrow> NMNDiscDNSDomain list
     \<Rightarrow> NMNDiscConfigMap set \<Rightarrow> guint32 \<Rightarrow> NMNDiscPrivate
     \<Rightarrow> NMNDiscDNSDomain list \<times> NMNDiscConfigMap set \<times> guint32 \<times> NMNDiscPrivate" where
  "clean_dns_domains_loop cfg clk now kept [] changed nextevent priv =
     (kept, changed, nextevent, priv)"
| "clean_dns_domains_loop cfg clk now kept (item # rest) changed nextevent priv =
     (let expiry = unat (dd_timestamp item) + unat (dd_lifetime item);
          refresh = unat (dd_timestamp item) + unat (dd_lifetime item) div 2 in
      if dd_lifetime item = G_MAXUINT32
        then clean_dns_domains_loop cfg clk now (kept @ [item]) rest changed nextevent priv
      else if unat now \<ge> expiry
        then clean_dns_domains_loop cfg clk now kept rest
               (changed \<union> {NM_NDISC_CONFIG_DNS_DOMAINS}) nextevent priv
      else if unat now \<ge> refresh
        then clean_dns_domains_loop cfg clk now (kept @ [item]) rest changed nextevent
               (solicit cfg clk priv)
      else if unat nextevent > refresh
        then clean_dns_domains_loop cfg clk now (kept @ [item]) rest changed
               (word_of_nat refresh) priv
      else clean_dns_domains_loop cfg clk now (kept @ [item]) rest changed nextevent priv)"

text \<open>Each pass takes and returns the private data together with the two locals of
  \<open>check_timestamps\<close> it is given pointers to, \<open>changed\<close> and \<open>nextevent\<close>.\<close>

type_synonym sweep_state = "NMNDiscPrivate \<times> NMNDiscConfigMap set \<times> guint32"

definition clean_gateways :: "guint32 \<Rightarrow> sweep_state \<Rightarrow> sweep_state" where
  "clean_gateways now = (\<lambda>(priv, changed, nextevent).
     let (arr, c, n) = clean_gateways_loop now [] (gateways (rdata priv)) changed nextevent
     in (priv\<lparr>rdata := (rdata priv)\<lparr>gateways := arr\<rparr>\<rparr>, c, n))"

definition clean_addresses :: "guint32 \<Rightarrow> sweep_state \<Rightarrow> sweep_state" where
  "clean_addresses now = (\<lambda>(priv, changed, nextevent).
     let (arr, c, n) = clean_addresses_loop now [] (addresses (rdata priv)) changed nextevent
     in (priv\<lparr>rdata := (rdata priv)\<lparr>addresses := arr\<rparr>\<rparr>, c, n))"

definition clean_routes :: "guint32 \<Rightarrow> sweep_state \<Rightarrow> sweep_state" where
  "clean_routes now = (\<lambda>(priv, changed, nextevent).
     let (arr, c, n) = clean_routes_loop now [] (routes (rdata priv)) changed nextevent
     in (priv\<lparr>rdata := (rdata priv)\<lparr>routes := arr\<rparr>\<rparr>, c, n))"

definition clean_dns_servers :: "NMNDiscConfig \<Rightarrow> int \<Rightarrow> guint32 \<Rightarrow> sweep_state \<Rightarrow> sweep_state" where
  "clean_dns_servers cfg clk now = (\<lambda>(priv, changed, nextevent).
     let (arr, c, n, p1) =
           clean_dns_servers_loop cfg clk now [] (dns_servers (rdata priv)) changed nextevent priv
     in (p1\<lparr>rdata := (rdata p1)\<lparr>dns_servers := arr\<rparr>\<rparr>, c, n))"

definition clean_dns_domains :: "NMNDiscConfig \<Rightarrow> int \<Rightarrow> guint32 \<Rightarrow> sweep_state \<Rightarrow> sweep_state" where
  "clean_dns_domains cfg clk now = (\<lambda>(priv, changed, nextevent).
     let (arr, c, n, p1) =
           clean_dns_domains_loop cfg clk now [] (dns_domains (rdata priv)) changed nextevent priv
     in (p1\<lparr>rdata := (rdata p1)\<lparr>dns_domains := arr\<rparr>\<rparr>, c, n))"

definition never :: guint32 where
  "never = 0x7FFFFFFF"

text \<open>The five clean passes of \<open>check_timestamps\<close>, in its order, starting from
  \<open>nextevent = never\<close> with the sweep timer cleared.\<close>

definition clean_passes ::
  "NMNDiscConfig \<Rightarrow> int \<Rightarrow> guint32 \<Rightarrow> NMNDiscConfigMap set \<Rightarrow> NMNDiscPrivate \<Rightarrow> sweep_state" where
  "clean_passes cfg clk now changed priv =
     clean_dns_domains cfg clk now
       (clean_dns_servers cfg clk now
          (clean_routes now
             (clean_addresses now
                (clean_gateways now (priv\<lparr>timeout_id := None\<rparr>, changed, never)))))"

definition check_timestamps ::
  "NMNDiscConfig \<Rightarrow> int \<Rightarrow> guint32 \<Rightarrow> NMNDiscConfigMap set \<Rightarrow> NMNDiscPrivate \<Rightarrow> NMNDiscPrivate" where
  "check_timestamps cfg clk now changed0 priv =
     (let (p1, changed, nextevent) = clean_passes cfg clk now changed0 priv;
          p2 = (if changed \<noteq> {} then emit_config_change changed p1 else p1)
      in if nextevent \<noteq> never then
           (if \<not> (nextevent > now)
            then p2\<lparr>effects := effects p2 @ [CRITICAL ''nextevent > now'']\<rparr>
            else p2\<lparr>timeout_id := Some (unat (nextevent - now))\<rparr>)
         else p2)"

definition timeout_cb :: "NMNDiscConfig \<Rightarrow> int \<Rightarrow> NMNDiscPrivate \<Rightarrow> NMNDiscPrivate" where
  "timeout_cb cfg clk priv =
     check_timestamps cfg clk (word_of_int clk) {} (priv\<lparr>timeout_id := None\<rparr>)"

definition nm_ndisc_ra_received ::
  "NMNDiscConfig \<Rightarrow> int \<Rightarrow> guint32 \<Rightarrow> NMNDiscConfigMap set \<Rightarrow> NMNDiscPrivate \<Rightarrow> NMNDiscPrivate" where
  "nm_ndisc_ra_received cfg clk now changed priv =
     check_timestamps cfg clk now changed
       (priv\<lparr>ra_timeout_id := None, send_rs_id := None, last_send_rs_error := None\<rparr>)"

section \<open>Reachable states\<close>

text \<open>
  The states of an engine: \<open>nm_ndisc_init\<close>, then any sequence of the public entry points
  and of the three timer callbacks. A timer callback runs only while its timer is pending.
\<close>

inductive reachable :: "stable_privacy_fn \<Rightarrow> NMNDiscConfig \<Rightarrow> NMNDiscPrivate \<Rightarrow> bool"
  for derive :: stable_privacy_fn and cfg :: NMNDiscConfig where
  r_init: "reachable derive cfg nm_ndisc_init"
| r_add_gateway:
    "reachable derive cfg s \<Longrightarrow> reachable derive cfg (snd (nm_ndisc_add_gateway new s))"
| r_add_address:
    "reachable derive cfg s
     \<Longrightarrow> reachable derive cfg (snd (snd (nm_ndisc_complete_and_add_address derive cfg new s)))"
| r_add_route:
    "reachable derive cfg s \<Longrightarrow> reachable derive cfg (snd (nm_ndisc_add_route new s))"
| r_add_dns_server:
    "reachable derive cfg s \<Longrightarrow> reachable derive cfg (snd (nm_ndisc_add_dns_server new s))"
| r_add_dns_domain:
    "reachable derive cfg s \<Longrightarrow> reachable derive cfg (snd (nm_ndisc_add_dns_domain new s))"
| r_start:
    "reachable derive cfg s \<Longrightarrow> reachable derive cfg (nm_ndisc_start cfg clk klass_start netns_ok s)"
| r_send_rs_timeout:
    "reachable derive cfg s \<Longrightarrow> send_rs_id s \<noteq> None
     \<Longrightarrow> reachable derive cfg (send_rs_timeout cfg clk netns_ok send_result s)"
| r_ra_timeout_cb:
    "reachable derive cfg s \<Longrightarrow> ra_timeout_id s \<noteq> None
     \<Longrightarrow> reachable derive cfg (ndisc_ra_timeout_cb s)"
| r_timeout_cb:
    "reachable derive cfg s \<Longrightarrow> timeout_id s \<noteq> None
     \<Longrightarrow> reachable derive cfg (timeout_cb cfg clk s)"
| r_ra_received:
    "reachable derive cfg s \<Longrightarrow> reachable derive cfg (nm_ndisc_ra_received cfg clk now changed s)"
| r_dad_failed:
    "reachable derive cfg s \<Longrightarrow> reachable derive cfg (nm_ndisc_dad_failed derive cfg address s)"
| r_set_iid:
    "reachable derive cfg s \<Longrightarrow> reachable derive cfg (snd (nm_ndisc_set_iid cfg clk new_iid s))"

section \<open>Specification functions and example inputs\<close>


text \<open>Example inputs for the concrete instances below.\<close>

definition example_config :: NMNDiscConfig where
  "example_config =
     \<lparr> ifindex = 2, ifname = ''eth0'', network_id = ''net'',
       addr_gen_mode = ADDR_GEN_MODE_EUI64, stable_type = 0, max_addresses = 16,
       router_solicitations = 3, router_solicitation_interval = 4 \<rparr>"

definition gw_high :: NMNDiscGateway where
  "gw_high = \<lparr>gw_address = 1, gw_timestamp = 0, gw_lifetime = 1800,
              gw_preference = NM_NDISC_PREFERENCE_HIGH\<rparr>"

definition swept_example :: NMNDiscPrivate where
  "swept_example = snd (nm_ndisc_add_gateway gw_high nm_ndisc_init)"

definition gw_low :: NMNDiscGateway where
  "gw_low = \<lparr>gw_address = 2, gw_timestamp = 0, gw_lifetime = 1800,
             gw_preference = NM_NDISC_PREFERENCE_LOW\<rparr>"

definition gw_short :: NMNDiscGateway where
  "gw_short = \<lparr>gw_address = 3, gw_timestamp = 0, gw_lifetime = 10,
               gw_preference = NM_NDISC_PREFERENCE_MEDIUM\<rparr>"

definition rt_high :: NMNDiscRoute where
  "rt_high = \<lparr>rt_network = 0x20010DB8000000010000000000000000, rt_plen = 64, rt_gateway = 1,
              rt_timestamp = 0, rt_lifetime = 1800, rt_preference = NM_NDISC_PREFERENCE_HIGH\<rparr>"

definition rt_low :: NMNDiscRoute where
  "rt_low = \<lparr>rt_network = 0x20010DB8000000020000000000000000, rt_plen = 64, rt_gateway = 1,
             rt_timestamp = 0, rt_lifetime = 1800, rt_preference = NM_NDISC_PREFERENCE_LOW\<rparr>"

definition two_gateways :: NMNDiscPrivate where
  "two_gateways = snd (nm_ndisc_add_gateway gw_short (snd (nm_ndisc_add_gateway gw_high nm_ndisc_init)))"

definition example_config_sp :: NMNDiscConfig where
  "example_config_sp = example_config\<lparr>addr_gen_mode := ADDR_GEN_MODE_STABLE_PRIVACY\<rparr>"

text \<open>An example derivation: it yields an identifier for the DAD counters 0, 1 and 2 and
  fails from then on, as a derivation with a bounded number of retries does.\<close>

definition example_derive :: stable_privacy_fn where
  "example_derive stype addr name netid dad_counter =
     (if dad_counter < 3 then Some (0x1122334455667700 + ucast dad_counter) else None)"

definition example_prefix :: NMNDiscAddress where
  "example_prefix = \<lparr>ad_address = 0x20010DB8000000000000000000000000, ad_dad_counter = 0,
                      ad_timestamp = 1, ad_lifetime = 3600, ad_preferred = 1800\<rparr>"


definition with_iid :: NMNDiscPrivate where
  "with_iid = snd (nm_ndisc_set_iid example_config 0 0x0200112233445566 nm_ndisc_init)"

definition with_address :: NMNDiscPrivate where
  "with_address =
     snd (snd (nm_ndisc_complete_and_add_address example_derive example_config example_prefix
                 with_iid))"

definition example_address :: NMNDiscAddress where
  "example_address = example_prefix\<lparr>ad_address := 0x20010DB8000000000200112233445566\<rparr>"

definition addr_exhausted :: NMNDiscAddress where
  "addr_exhausted = \<lparr>ad_address = 0x20010DB8000000001122334455667702, ad_dad_counter = 3,
                      ad_timestamp = 1, ad_lifetime = 3600, ad_preferred = 1800\<rparr>"

text \<open>The number of successful and of failed \<open>klass->send_rs\<close> calls among some effects.\<close>

definition count_sent :: "ndisc_effect list \<Rightarrow> nat" where
  "count_sent evs = length (filter (\<lambda>e. e = KLASS_SEND_RS True) evs)"

definition count_failed :: "ndisc_effect list \<Rightarrow> nat" where
  "count_failed evs = length (filter (\<lambda>e. e = KLASS_SEND_RS False) evs)"

definition single_rs_config :: NMNDiscConfig where
  "single_rs_config = example_config\<lparr>router_solicitations := 1\<rparr>"

definition failing_ticks :: "rs_tick list" where
  "failing_ticks = [(0, True, Some ''no link-local address''),
                    (4, True, Some ''no link-local address''),
                    (8, True, None)]"

definition mixed_ticks :: "rs_tick list" where
  "mixed_ticks = [(0, True, Some ''no link-local address''), (4, True, None), (8, True, None),
                  (12, True, Some ''network unreachable''), (16, True, None), (20, True, None)]"

text \<open>The invariant of the store that the claims speak of: every stored item has a
  lifetime other than 0, every stored route has a prefix length from 1 to 128, and a positive
  cap bounds the number of addresses.\<close>

definition store_inv :: "NMNDiscConfig \<Rightarrow> NMNDiscData \<Rightarrow> bool" where
  "store_inv cfg d =
     ((\<forall>x\<in>set (gateways d). gw_lifetime x \<noteq> 0)
      \<and> (\<forall>x\<in>set (addresses d). ad_lifetime x \<noteq> 0)
      \<and> (\<forall>x\<in>set (routes d). rt_lifetime x \<noteq> 0 \<and> 1 \<le> rt_plen x \<and> rt_plen x \<le> 128)
      \<and> (\<forall>x\<in>set (dns_servers d). ds_lifetime x \<noteq> 0)
      \<and> (\<forall>x\<in>set (dns_domains d). dd_lifetime x \<noteq> 0)
      \<and> (0 < max_addresses cfg \<and> max_addresses cfg \<le> G_MAXINT32
           \<longrightarrow> int (length (addresses d)) \<le> max_addresses cfg))"

definition cap_config :: NMNDiscConfig where
  "cap_config = example_config\<lparr>max_addresses := 1\<rparr>"

definition capped_state :: NMNDiscPrivate where
  "capped_state =
     snd (snd (nm_ndisc_complete_and_add_address example_derive cap_config example_prefix
       (snd (nm_ndisc_set_iid cap_config 0 0x0200112233445566 nm_ndisc_init))))"

definition second_prefix :: NMNDiscAddress where
  "second_prefix = example_prefix\<lparr>ad_address := 0x20010DB8000000010000000000000000\<rparr>"

definition second_address :: NMNDiscAddress where
  "second_address = example_prefix\<lparr>ad_address := 0x20010DB8000000010200112233445566\<rparr>"











section \<open>Lemmas about the store loops\<close>

lemma set_g_array_insert_val: "set (g_array_insert_val xs i v) = insert v (set xs)"
proof -
  have "set (take i xs) \<union> set (drop i xs) = set xs"
    by (metis append_take_drop_id set_append)
  then show ?thesis by (auto simp: g_array_insert_val_def)
qed

lemma add_gateway_loop_set:
  "set (snd (add_gateway_loop new kept rest idx))
     \<subseteq> set kept \<union> set rest \<union> (if gw_lifetime new \<noteq> 0 then {new} else {})"
proof (induction rest arbitrary: kept idx)
  case Nil
  show ?case by (simp add: set_g_array_insert_val)
next
  case (Cons item rest)
  have a: "set (snd (add_gateway_loop new kept rest idx))
     \<subseteq> set kept \<union> set rest \<union> (if gw_lifetime new \<noteq> 0 then {new} else {})"
    by (rule Cons.IH)
  have b: "\<And>j. set (snd (add_gateway_loop new (kept @ [item]) rest j))
     \<subseteq> set (kept @ [item]) \<union> set rest \<union> (if gw_lifetime new \<noteq> 0 then {new} else {})"
    by (rule Cons.IH)
  show ?case using a b by (auto split: if_splits)
qed

lemma add_route_loop_set:
  "set (snd (add_route_loop new kept rest idx))
     \<subseteq> set kept \<union> set rest \<union> (if rt_lifetime new \<noteq> 0 then {new} else {})"
proof (induction rest arbitrary: kept idx)
  case Nil
  show ?case by (simp add: set_g_array_insert_val)
next
  case (Cons item rest)
  have a: "set (snd (add_route_loop new kept rest idx))
     \<subseteq> set kept \<union> set rest \<union> (if rt_lifetime new \<noteq> 0 then {new} else {})"
    by (rule Cons.IH)
  have b: "\<And>j. set (snd (add_route_loop new (kept @ [item]) rest j))
     \<subseteq> set (kept @ [item]) \<union> set rest \<union> (if rt_lifetime new \<noteq> 0 then {new} else {})"
    by (rule Cons.IH)
  show ?case using a b by (auto split: if_splits)
qed

lemma add_dns_server_loop_set:
  "set (snd (add_dns_server_loop new kept rest))
     \<subseteq> set kept \<union> set rest \<union> (if ds_lifetime new \<noteq> 0 then {new} else {})"
proof (induction rest arbitrary: kept)
  case Nil
  show ?case by (simp add: set_g_array_insert_val)
next
  case (Cons item rest)
  have b: "set (snd (add_dns_server_loop new (kept @ [item]) rest))
     \<subseteq> set (kept @ [item]) \<union> set rest \<union> (if ds_lifetime new \<noteq> 0 then {new} else {})"
    by (rule Cons.IH)
  show ?case using b by (auto split: if_splits)
qed

lemma add_dns_domain_loop_lifetime:
  "\<forall>x\<in>set kept. dd_lifetime x \<noteq> 0 \<Longrightarrow> \<forall>x\<in>set rest. dd_lifetime x \<noteq> 0
   \<Longrightarrow> \<forall>x\<in>set (snd (add_dns_domain_loop new kept rest)). dd_lifetime x \<noteq> 0"
proof (induction rest arbitrary: kept)
  case Nil
  then show ?case by (simp add: set_g_array_insert_val)
next
  case (Cons item rest)
  have b: "\<forall>x\<in>set (snd (add_dns_domain_loop new (kept @ [item]) rest)). dd_lifetime x \<noteq> 0"
    using Cons.prems by (intro Cons.IH) auto
  show ?case
  proof (cases "dd_domain item = dd_domain new")
    case True
    then show ?thesis using Cons.prems by (auto simp add: Let_def)
  next
    case False
    then show ?thesis using b by simp
  qed
qed

lemma add_address_loop_set:
  "add_address_loop new kept rest = Some (c, arr)
   \<Longrightarrow> set arr \<subseteq> set kept \<union> set rest \<union> (if ad_lifetime new \<noteq> 0 then {new} else {})"
proof (induction rest arbitrary: kept)
  case Nil
  then show ?case by simp
next
  case (Cons item rest)
  show ?case
  proof (cases "ad_address item = ad_address new")
    case True
    then show ?thesis using Cons.prems by (auto split: if_splits)
  next
    case False
    then have "add_address_loop new (kept @ [item]) rest = Some (c, arr)"
      using Cons.prems by simp
    then have "set arr \<subseteq> set (kept @ [item]) \<union> set rest
                 \<union> (if ad_lifetime new \<noteq> 0 then {new} else {})"
      by (rule Cons.IH)
    then show ?thesis by auto
  qed
qed

lemma add_address_loop_length:
  "add_address_loop new kept rest = Some (c, arr) \<Longrightarrow> length arr \<le> length kept + length rest"
proof (induction rest arbitrary: kept)
  case Nil
  then show ?case by simp
next
  case (Cons item rest)
  show ?case
  proof (cases "ad_address item = ad_address new")
    case True
    then show ?thesis using Cons.prems by (auto split: if_splits)
  next
    case False
    then have "add_address_loop new (kept @ [item]) rest = Some (c, arr)"
      using Cons.prems by simp
    then have "length arr \<le> length (kept @ [item]) + length rest"
      by (rule Cons.IH)
    then show ?thesis by simp
  qed
qed







lemma add_address_loop_no_match:
  "\<forall>x\<in>set rest. ad_address x \<noteq> ad_address new \<Longrightarrow> add_address_loop new kept rest = None"
  by (induction rest arbitrary: kept) auto

lemma add_gateway_loop_refresh:
  assumes "\<forall>x\<in>set pre. gw_address x \<noteq> gw_address new"
    and "gw_address item = gw_address new"
    and "gw_preference item = gw_preference new"
    and "gw_lifetime new \<noteq> 0"
  shows "add_gateway_loop new kept (pre @ item # rest) idx = (False, kept @ pre @ new # rest)"
  using assms
  by (induction pre arbitrary: kept idx) auto

section \<open>Arithmetic and bit lemmas\<close>

lemma s64_id: "- (2 ^ 63) \<le> x \<Longrightarrow> x < 2 ^ 63 \<Longrightarrow> s64 x = x"
  unfolding s64_def by (simp add: signed_take_bit_int_eq_self)

lemma s32_id: "- (2 ^ 31) \<le> x \<Longrightarrow> x < 2 ^ 31 \<Longrightarrow> s32 x = x"
  unfolding s32_def by (simp add: signed_take_bit_int_eq_self)

lemma ra_wait_secs_exact:
  assumes "1 \<le> a" "a \<le> G_MAXINT32" "1 \<le> b" "b \<le> G_MAXINT32"
  shows "s64 (s64 (a * b) + 1) = a * b + 1"
proof -
  have "a * b \<le> 2147483647 * 2147483647"
    using assms unfolding G_MAXINT32_def by (intro mult_mono) auto
  moreover have "1 \<le> a * b" using assms
    by (metis mult_mono mult_1 zero_le_one order_trans)
  ultimately show ?thesis by (simp add: s64_id)
qed

lemma u32_cap: "0 < m \<Longrightarrow> m \<le> G_MAXINT32 \<Longrightarrow> u32 m = nat m"
  by (simp add: u32_def G_MAXINT32_def)

lemma filter_within_cap: "int (length xs) \<le> m \<Longrightarrow> int (length (filter P xs)) \<le> m"
  using length_filter_le [of P xs] by linarith

lemma interface_identifier_prefix:
  "drop_bit 64 (nm_utils_ipv6_addr_set_interface_identifier a i) = drop_bit 64 a"
  unfolding nm_utils_ipv6_addr_set_interface_identifier_def
  by (rule bit_eqI) (auto simp add: bit_simps dest: bit_imp_le_length)

lemma interface_identifier_host:
  "ucast (nm_utils_ipv6_addr_set_interface_identifier a i) = i"
  unfolding nm_utils_ipv6_addr_set_interface_identifier_def
  by (rule bit_eqI) (auto simp add: bit_simps dest: bit_imp_le_length)

lemma expiry_64bit:
  fixes now ts lt :: guint32
  shows "((ucast now :: 64 word) < ucast ts + ucast lt) = (unat now < unat ts + unat lt)"
proof -
  have a: "unat ts < 2 ^ 32" "unat lt < 2 ^ 32"
    using unsigned_less [of ts] unsigned_less [of lt] by simp_all
  have u: "\<And>w :: guint32. unat (ucast w :: 64 word) = unat w"
    by (simp add: unsigned_ucast_eq take_bit_nat_eq_self_iff [THEN iffD2]
          order_less_trans [OF unsigned_less])
  have "unat (ucast ts :: 64 word) + unat (ucast lt :: 64 word) < 2 ^ LENGTH(64)"
    using a by (simp add: u)
  then have "unat ((ucast ts :: 64 word) + ucast lt) = unat ts + unat lt"
    by (simp add: unat_add_lem [THEN iffD1] u)
  then show ?thesis by (simp add: word_less_nat_alt u)
qed

lemma nextevent_assign:
  fixes now nextevent :: guint32
  assumes "e < unat nextevent" and "\<not> e \<le> unat now"
  shows "now < word_of_nat e"
proof -
  have "unat nextevent < 2 ^ 32" using unsigned_less [of nextevent] by simp
  then have "e < 2 ^ LENGTH(32)" using assms(1) by simp
  then have "unat (word_of_nat e :: guint32) = e" by (simp add: unat_of_nat)
  then show ?thesis using assms(2) by (simp add: word_less_nat_alt)
qed

section \<open>Lemmas about the pacer\<close>

lemma solicit_frame [simp]:
  "rdata (solicit cfg clk p) = rdata p"
  "effects (solicit cfg clk p) = effects p"
  "iid (solicit cfg clk p) = iid p"
  "timeout_id (solicit cfg clk p) = timeout_id p"
  "ra_timeout_id (solicit cfg clk p) = ra_timeout_id p"
  by (simp_all add: solicit_def Let_def)

lemma solicit_while_pending: "send_rs_id p \<noteq> None \<Longrightarrow> solicit cfg clk p = p"
  by (simp add: solicit_def)

lemma solicit_pending: "send_rs_id (solicit cfg clk p) \<noteq> None"
  by (simp add: solicit_def Let_def)

lemma rs_burst_stopped: "send_rs_id priv = None \<Longrightarrow> rs_burst cfg ticks priv = priv"
  by (cases ticks) auto

lemma rs_burst_append:
  "rs_burst cfg (ticks @ later) priv = rs_burst cfg later (rs_burst cfg ticks priv)"
proof (induction ticks arbitrary: priv)
  case Nil
  show ?case by simp
next
  case (Cons tick ticks)
  obtain clk netns_ok send_result where tick: "tick = (clk, netns_ok, send_result)"
    by (cases tick) auto
  show ?case
  proof (cases "send_rs_id priv = None")
    case True
    then show ?thesis by (simp add: tick rs_burst_stopped)
  next
    case False
    then show ?thesis using Cons.IH by (auto simp add: tick)
  qed
qed

lemma rs_burst_effects:
  assumes "1 \<le> solicitations_left priv" and "solicitations_left priv \<le> G_MAXINT32"
  shows "\<exists>evs. effects (rs_burst cfg ticks priv) = effects priv @ evs
               \<and> (\<forall>e\<in>set evs. is_send_rs e)
               \<and> length evs \<le> length ticks
               \<and> int (count_sent evs) \<le> solicitations_left priv
               \<and> solicitations_left (rs_burst cfg ticks priv)
                    = solicitations_left priv - int (count_sent evs)
               \<and> (int (count_sent evs) = solicitations_left priv
                    \<longrightarrow> send_rs_id (rs_burst cfg ticks priv) = None)"
  using assms
proof (induction ticks arbitrary: priv)
  case Nil
  then show ?case by (simp add: count_sent_def)
next
  case (Cons tick ticks)
  obtain clk netns_ok send_result where tick: "tick = (clk, netns_ok, send_result)"
    by (cases tick) auto
  let ?n = "solicitations_left priv"
  have wrap: "s32 (?n - 1) = ?n - 1"
    using Cons.prems by (intro s32_id) (simp_all add: G_MAXINT32_def)
  show ?case
  proof (cases "send_rs_id priv = None")
    case True
    then show ?thesis using Cons.prems by (simp add: tick count_sent_def)
  next
    case pending: False
    let ?p = "send_rs_timeout cfg clk netns_ok send_result priv"
    have step: "rs_burst cfg (tick # ticks) priv = rs_burst cfg ticks ?p"
      using pending by (auto simp add: tick)
    show ?thesis
    proof (cases netns_ok)
      case False
      then have "send_rs_id ?p = None" "effects ?p = effects priv"
        "solicitations_left ?p = ?n"
        by (simp_all add: send_rs_timeout_def Let_def)
      then show ?thesis
        using Cons.prems by (simp add: step rs_burst_stopped count_sent_def)
    next
      case netns: True
      show ?thesis
      proof (cases send_result)
        case (Some message)
        have p: "effects ?p = effects priv @ [KLASS_SEND_RS False]"
          "solicitations_left ?p = ?n"
          using netns Some Cons.prems by (simp_all add: send_rs_timeout_def Let_def)
        obtain evs where evs: "effects (rs_burst cfg ticks ?p) = effects ?p @ evs"
          "\<forall>e\<in>set evs. is_send_rs e" "length evs \<le> length ticks"
          "int (count_sent evs) \<le> solicitations_left ?p"
          "solicitations_left (rs_burst cfg ticks ?p)
             = solicitations_left ?p - int (count_sent evs)"
          "int (count_sent evs) = solicitations_left ?p
             \<longrightarrow> send_rs_id (rs_burst cfg ticks ?p) = None"
          using Cons.IH [of ?p] Cons.prems p by auto
        show ?thesis
          using evs p
          by (intro exI [of _ "KLASS_SEND_RS False # evs"]) (simp add: step count_sent_def)
      next
        case None
        have p: "effects ?p = effects priv @ [KLASS_SEND_RS True]"
          "solicitations_left ?p = ?n - 1"
          using netns None wrap by (simp_all add: send_rs_timeout_def Let_def)
        show ?thesis
        proof (cases "?n - 1 > 0")
          case True
          obtain evs where evs: "effects (rs_burst cfg ticks ?p) = effects ?p @ evs"
            "\<forall>e\<in>set evs. is_send_rs e" "length evs \<le> length ticks"
            "int (count_sent evs) \<le> solicitations_left ?p"
            "solicitations_left (rs_burst cfg ticks ?p)
               = solicitations_left ?p - int (count_sent evs)"
            "int (count_sent evs) = solicitations_left ?p
               \<longrightarrow> send_rs_id (rs_burst cfg ticks ?p) = None"
            using Cons.IH [of ?p] Cons.prems p True by auto
          show ?thesis
            using evs p
            by (intro exI [of _ "KLASS_SEND_RS True # evs"]) (simp add: step count_sent_def)
        next
          case False
          then have one: "?n = 1" using Cons.prems by simp
          have "send_rs_id ?p = None"
            using netns None wrap one by (simp add: send_rs_timeout_def Let_def)
          then have "rs_burst cfg ticks ?p = ?p" by (rule rs_burst_stopped)
          then show ?thesis
            using p one \<open>send_rs_id ?p = None\<close>
            by (intro exI [of _ "[KLASS_SEND_RS True]"]) (simp add: step count_sent_def)
        qed
      qed
    qed
  qed
qed

lemma failed_tick:
  assumes "0 < solicitations_left p"
  shows "effects (send_rs_timeout cfg clk True (Some message) p)
           = effects p @ [KLASS_SEND_RS False]
       \<and> solicitations_left (send_rs_timeout cfg clk True (Some message) p)
           = solicitations_left p
       \<and> send_rs_id (send_rs_timeout cfg clk True (Some message) p)
           = Some (u32 (router_solicitation_interval cfg))"
  using assms by (simp add: send_rs_timeout_def Let_def)

lemma successful_tick:
  assumes "1 \<le> solicitations_left p" and "solicitations_left p \<le> G_MAXINT32"
  shows "effects (send_rs_timeout cfg clk True None p) = effects p @ [KLASS_SEND_RS True]
       \<and> solicitations_left (send_rs_timeout cfg clk True None p) = solicitations_left p - 1
       \<and> send_rs_id (send_rs_timeout cfg clk True None p)
           = (if 1 < solicitations_left p
              then Some (u32 (router_solicitation_interval cfg)) else None)"
proof -
  have "s32 (solicitations_left p - 1) = solicitations_left p - 1"
    using assms by (intro s32_id) (simp_all add: G_MAXINT32_def)
  then show ?thesis by (simp add: send_rs_timeout_def Let_def)
qed

lemma send_rs_split:
  "\<forall>e\<in>set evs. is_send_rs e \<Longrightarrow> length evs = count_sent evs + count_failed evs"
proof (induction evs)
  case Nil
  show ?case by (simp add: count_sent_def count_failed_def)
next
  case (Cons e evs)
  then obtain ok where "e = KLASS_SEND_RS ok" by (cases e) auto
  then show ?case using Cons by (cases ok) (simp_all add: count_sent_def count_failed_def)
qed

section \<open>Lemmas about the sweeper\<close>

lemma clean_gateways_loop_fst:
  "fst (clean_gateways_loop now kept rest c n) =
     kept @ filter (\<lambda>x. gw_lifetime x = G_MAXUINT32
                         \<or> unat now < unat (gw_timestamp x) + unat (gw_lifetime x)) rest"
  by (induction rest arbitrary: kept c n) (simp_all add: Let_def not_le)

lemma clean_addresses_loop_fst:
  "fst (clean_addresses_loop now kept rest c n) =
     kept @ filter (\<lambda>x. ad_lifetime x = G_MAXUINT32
                         \<or> unat now < unat (ad_timestamp x) + unat (ad_lifetime x)) rest"
  by (induction rest arbitrary: kept c n) (simp_all add: Let_def not_le)

lemma clean_routes_loop_fst:
  "fst (clean_routes_loop now kept rest c n) =
     kept @ filter (\<lambda>x. rt_lifetime x = G_MAXUINT32
                         \<or> unat now < unat (rt_timestamp x) + unat (rt_lifetime x)) rest"
  by (induction rest arbitrary: kept c n) (simp_all add: Let_def not_le)

lemma clean_dns_servers_loop_fst:
  "fst (clean_dns_servers_loop cfg clk now kept rest c n p) =
     kept @ filter (\<lambda>x. ds_lifetime x = G_MAXUINT32
                         \<or> unat now < unat (ds_timestamp x) + unat (ds_lifetime x)) rest"
  by (induction rest arbitrary: kept c n p) (simp_all add: Let_def not_le)

lemma clean_dns_domains_loop_fst:
  "fst (clean_dns_domains_loop cfg clk now kept rest c n p) =
     kept @ filter (\<lambda>x. dd_lifetime x = G_MAXUINT32
                         \<or> unat now < unat (dd_timestamp x) + unat (dd_lifetime x)) rest"
  by (induction rest arbitrary: kept c n p) (simp_all add: Let_def not_le)

lemma clean_dns_servers_loop_priv:
  "rdata (snd (snd (snd (clean_dns_servers_loop cfg clk now kept rest c n p)))) = rdata p
   \<and> effects (snd (snd (snd (clean_dns_servers_loop cfg clk now kept rest c n p)))) = effects p
   \<and> timeout_id (snd (snd (snd (clean_dns_servers_loop cfg clk now kept rest c n p)))) = timeout_id p"
  by (induction rest arbitrary: kept c n p) (simp_all add: Let_def)

lemma clean_dns_domains_loop_priv:
  "rdata (snd (snd (snd (clean_dns_domains_loop cfg clk now kept rest c n p)))) = rdata p
   \<and> effects (snd (snd (snd (clean_dns_domains_loop cfg clk now kept rest c n p)))) = effects p
   \<and> timeout_id (snd (snd (snd (clean_dns_domains_loop cfg clk now kept rest c n p)))) = timeout_id p"
  by (induction rest arbitrary: kept c n p) (simp_all add: Let_def)

lemma clean_gateways_loop_nextevent:
  "n = never \<or> now < n \<Longrightarrow>
   snd (snd (clean_gateways_loop now kept rest c n)) = never
   \<or> now < snd (snd (clean_gateways_loop now kept rest c n))"
proof (induction rest arbitrary: kept c n)
  case Nil
  then show ?case by simp
next
  case (Cons item rest)
  define e where "e = unat (gw_timestamp item) + unat (gw_lifetime item)"
  have new: "e < unat n \<Longrightarrow> \<not> e \<le> unat now \<Longrightarrow> now < (word_of_nat e :: guint32)"
    by (rule nextevent_assign)
  have step: "clean_gateways_loop now kept (item # rest) c n =
     (if gw_lifetime item = G_MAXUINT32
        then clean_gateways_loop now (kept @ [item]) rest c n
      else if e \<le> unat now
        then clean_gateways_loop now kept rest (c \<union> {NM_NDISC_CONFIG_GATEWAYS}) n
      else if e < unat n
        then clean_gateways_loop now (kept @ [item]) rest c (word_of_nat e)
      else clean_gateways_loop now (kept @ [item]) rest c n)"
    by (simp add: e_def Let_def)
  show ?case unfolding step using Cons.prems new by (auto intro!: Cons.IH)
qed

lemma clean_addresses_loop_nextevent:
  "n = never \<or> now < n \<Longrightarrow>
   snd (snd (clean_addresses_loop now kept rest c n)) = never
   \<or> now < snd (snd (clean_addresses_loop now kept rest c n))"
proof (induction rest arbitrary: kept c n)
  case Nil
  then show ?case by simp
next
  case (Cons item rest)
  define e where "e = unat (ad_timestamp item) + unat (ad_lifetime item)"
  have new: "e < unat n \<Longrightarrow> \<not> e \<le> unat now \<Longrightarrow> now < (word_of_nat e :: guint32)"
    by (rule nextevent_assign)
  have step: "clean_addresses_loop now kept (item # rest) c n =
     (if ad_lifetime item = G_MAXUINT32
        then clean_addresses_loop now (kept @ [item]) rest c n
      else if e \<le> unat now
        then clean_addresses_loop now kept rest (c \<union> {NM_NDISC_CONFIG_ADDRESSES}) n
      else if e < unat n
        then clean_addresses_loop now (kept @ [item]) rest c (word_of_nat e)
      else clean_addresses_loop now (kept @ [item]) rest c n)"
    by (simp add: e_def Let_def)
  show ?case unfolding step using Cons.prems new by (auto intro!: Cons.IH)
qed

lemma clean_routes_loop_nextevent:
  "n = never \<or> now < n \<Longrightarrow>
   snd (snd (clean_routes_loop now kept rest c n)) = never
   \<or> now < snd (snd (clean_routes_loop now kept rest c n))"
proof (induction rest arbitrary: kept c n)
  case Nil
  then show ?case by simp
next
  case (Cons item rest)
  define e where "e = unat (rt_timestamp item) + unat (rt_lifetime item)"
  have new: "e < unat n \<Longrightarrow> \<not> e \<le> unat now \<Longrightarrow> now < (word_of_nat e :: guint32)"
    by (rule nextevent_assign)
  have step: "clean_routes_loop now kept (item # rest) c n =
     (if rt_lifetime item = G_MAXUINT32
        then clean_routes_loop now (kept @ [item]) rest c n
      else if e \<le> unat now
        then clean_routes_loop now kept rest (c \<union> {NM_NDISC_CONFIG_ROUTES}) n
      else if e < unat n
        then clean_routes_loop now (kept @ [item]) rest c (word_of_nat e)
      else clean_routes_loop now (kept @ [item]) rest c n)"
    by (simp add: e_def Let_def)
  show ?case unfolding step using Cons.prems new by (auto intro!: Cons.IH)
qed

lemma clean_dns_servers_loop_nextevent:
  "n = never \<or> now < n \<Longrightarrow>
   fst (snd (snd (clean_dns_servers_loop cfg clk now kept rest c n p))) = never
   \<or> now < fst (snd (snd (clean_dns_servers_loop cfg clk now kept rest c n p)))"
proof (induction rest arbitrary: kept c n p)
  case Nil
  then show ?case by simp
next
  case (Cons item rest)
  define e where "e = unat (ds_timestamp item) + unat (ds_lifetime item)"
  define r where "r = unat (ds_timestamp item) + unat (ds_lifetime item) div 2"
  have new: "r < unat n \<Longrightarrow> \<not> r \<le> unat now \<Longrightarrow> now < (word_of_nat r :: guint32)"
    by (rule nextevent_assign)
  have step: "clean_dns_servers_loop cfg clk now kept (item # rest) c n p =
     (if ds_lifetime item = G_MAXUINT32
        then clean_dns_servers_loop cfg clk now (kept @ [item]) rest c n p
      else if e \<le> unat now
        then clean_dns_servers_loop cfg clk now kept rest (c \<union> {NM_NDISC_CONFIG_DNS_SERVERS}) n p
      else if r \<le> unat now
        then clean_dns_servers_loop cfg clk now (kept @ [item]) rest c n (solicit cfg clk p)
      else if r < unat n
        then clean_dns_servers_loop cfg clk now (kept @ [item]) rest c (word_of_nat r) p
      else clean_dns_servers_loop cfg clk now (kept @ [item]) rest c n p)"
    by (simp add: e_def r_def Let_def)
  show ?case unfolding step using Cons.prems new by (auto intro!: Cons.IH)
qed

lemma clean_dns_domains_loop_nextevent:
  "n = never \<or> now < n \<Longrightarrow>
   fst (snd (snd (clean_dns_domains_loop cfg clk now kept rest c n p))) = never
   \<or> now < fst (snd (snd (clean_dns_domains_loop cfg clk now kept rest c n p)))"
proof (induction rest arbitrary: kept c n p)
  case Nil
  then show ?case by simp
next
  case (Cons item rest)
  define e where "e = unat (dd_timestamp item) + unat (dd_lifetime item)"
  define r where "r = unat (dd_timestamp item) + unat (dd_lifetime item) div 2"
  have new: "r < unat n \<Longrightarrow> \<not> r \<le> unat now \<Longrightarrow> now < (word_of_nat r :: guint32)"
    by (rule nextevent_assign)
  have step: "clean_dns_domains_loop cfg clk now kept (item # rest) c n p =
     (if dd_lifetime item = G_MAXUINT32
        then clean_dns_domains_loop cfg clk now (kept @ [item]) rest c n p
      else if e \<le> unat now
        then clean_dns_domains_loop cfg clk now kept rest (c \<union> {NM_NDISC_CONFIG_DNS_DOMAINS}) n p
      else if r \<le> unat now
        then clean_dns_domains_loop cfg clk now (kept @ [item]) rest c n (solicit cfg clk p)
      else if r < unat n
        then clean_dns_domains_loop cfg clk now (kept @ [item]) rest c (word_of_nat r) p
      else clean_dns_domains_loop cfg clk now (kept @ [item]) rest c n p)"
    by (simp add: e_def r_def Let_def)
  show ?case unfolding step using Cons.prems new by (auto intro!: Cons.IH)
qed

lemma rdata_clean_gateways:
  "rdata (fst (clean_gateways now st)) =
     (rdata (fst st))\<lparr>gateways := filter (\<lambda>x. gw_lifetime x = G_MAXUINT32
         \<or> unat now < unat (gw_timestamp x) + unat (gw_lifetime x)) (gateways (rdata (fst st)))\<rparr>"
  by (simp add: clean_gateways_def case_prod_unfold Let_def clean_gateways_loop_fst)

lemma rdata_clean_addresses:
  "rdata (fst (clean_addresses now st)) =
     (rdata (fst st))\<lparr>addresses := filter (\<lambda>x. ad_lifetime x = G_MAXUINT32
         \<or> unat now < unat (ad_timestamp x) + unat (ad_lifetime x)) (addresses (rdata (fst st)))\<rparr>"
  by (simp add: clean_addresses_def case_prod_unfold Let_def clean_addresses_loop_fst)

lemma rdata_clean_routes:
  "rdata (fst (clean_routes now st)) =
     (rdata (fst st))\<lparr>routes := filter (\<lambda>x. rt_lifetime x = G_MAXUINT32
         \<or> unat now < unat (rt_timestamp x) + unat (rt_lifetime x)) (routes (rdata (fst st)))\<rparr>"
  by (simp add: clean_routes_def case_prod_unfold Let_def clean_routes_loop_fst)

lemma rdata_clean_dns_servers:
  "rdata (fst (clean_dns_servers cfg clk now st)) =
     (rdata (fst st))\<lparr>dns_servers := filter (\<lambda>x. ds_lifetime x = G_MAXUINT32
         \<or> unat now < unat (ds_timestamp x) + unat (ds_lifetime x)) (dns_servers (rdata (fst st)))\<rparr>"
  by (simp add: clean_dns_servers_def case_prod_unfold Let_def clean_dns_servers_loop_fst clean_dns_servers_loop_priv)

lemma rdata_clean_dns_domains:
  "rdata (fst (clean_dns_domains cfg clk now st)) =
     (rdata (fst st))\<lparr>dns_domains := filter (\<lambda>x. dd_lifetime x = G_MAXUINT32
         \<or> unat now < unat (dd_timestamp x) + unat (dd_lifetime x)) (dns_domains (rdata (fst st)))\<rparr>"
  by (simp add: clean_dns_domains_def case_prod_unfold Let_def clean_dns_domains_loop_fst clean_dns_domains_loop_priv)

lemma rdata_clean_passes:
  "rdata (fst (clean_passes cfg clk now changed priv)) =
     \<lparr> gateways = filter (\<lambda>x. gw_lifetime x = G_MAXUINT32
           \<or> unat now < unat (gw_timestamp x) + unat (gw_lifetime x)) (gateways (rdata priv)),
       addresses = filter (\<lambda>x. ad_lifetime x = G_MAXUINT32
           \<or> unat now < unat (ad_timestamp x) + unat (ad_lifetime x)) (addresses (rdata priv)),
       routes = filter (\<lambda>x. rt_lifetime x = G_MAXUINT32
           \<or> unat now < unat (rt_timestamp x) + unat (rt_lifetime x)) (routes (rdata priv)),
       dns_servers = filter (\<lambda>x. ds_lifetime x = G_MAXUINT32
           \<or> unat now < unat (ds_timestamp x) + unat (ds_lifetime x)) (dns_servers (rdata priv)),
       dns_domains = filter (\<lambda>x. dd_lifetime x = G_MAXUINT32
           \<or> unat now < unat (dd_timestamp x) + unat (dd_lifetime x)) (dns_domains (rdata priv)) \<rparr>"
  unfolding clean_passes_def
  by (simp add: rdata_clean_gateways rdata_clean_addresses rdata_clean_routes
        rdata_clean_dns_servers rdata_clean_dns_domains)

lemma rdata_check_timestamps:
  "rdata (check_timestamps cfg clk now changed priv) =
     rdata (fst (clean_passes cfg clk now changed priv))"
  by (cases "clean_passes cfg clk now changed priv")
     (simp add: check_timestamps_def emit_config_change_def Let_def)

lemma effects_clean_gateways:
  "effects (fst (clean_gateways now st)) = effects (fst st)"
  by (simp add: clean_gateways_def case_prod_unfold Let_def)

lemma nextevent_clean_gateways:
  assumes "snd (snd st) = never \<or> now < snd (snd st)"
  shows "snd (snd (clean_gateways now st)) = never \<or> now < snd (snd (clean_gateways now st))"
proof -
  have "snd (snd (clean_gateways now st)) = snd (snd (clean_gateways_loop now [] (gateways (rdata (fst st))) (fst (snd st)) (snd (snd st))))"
    by (simp add: clean_gateways_def case_prod_unfold Let_def)
  then show ?thesis
    using clean_gateways_loop_nextevent [OF assms] by simp
qed

lemma effects_clean_addresses:
  "effects (fst (clean_addresses now st)) = effects (fst st)"
  by (simp add: clean_addresses_def case_prod_unfold Let_def)

lemma nextevent_clean_addresses:
  assumes "snd (snd st) = never \<or> now < snd (snd st)"
  shows "snd (snd (clean_addresses now st)) = never \<or> now < snd (snd (clean_addresses now st))"
proof -
  have "snd (snd (clean_addresses now st)) = snd (snd (clean_addresses_loop now [] (addresses (rdata (fst st))) (fst (snd st)) (snd (snd st))))"
    by (simp add: clean_addresses_def case_prod_unfold Let_def)
  then show ?thesis
    using clean_addresses_loop_nextevent [OF assms] by simp
qed

lemma effects_clean_routes:
  "effects (fst (clean_routes now st)) = effects (fst st)"
  by (simp add: clean_routes_def case_prod_unfold Let_def)

lemma nextevent_clean_routes:
  assumes "snd (snd st) = never \<or> now < snd (snd st)"
  shows "snd (snd (clean_routes now st)) = never \<or> now < snd (snd (clean_routes now st))"
proof -
  have "snd (snd (clean_routes now st)) = snd (snd (clean_routes_loop now [] (routes (rdata (fst st))) (fst (snd st)) (snd (snd st))))"
    by (simp add: clean_routes_def case_prod_unfold Let_def)
  then show ?thesis
    using clean_routes_loop_nextevent [OF assms] by simp
qed

lemma effects_clean_dns_servers:
  "effects (fst (clean_dns_servers cfg clk now st)) = effects (fst st)"
  by (simp add: clean_dns_servers_def case_prod_unfold Let_def clean_dns_servers_loop_priv)

lemma nextevent_clean_dns_servers:
  assumes "snd (snd st) = never \<or> now < snd (snd st)"
  shows "snd (snd (clean_dns_servers cfg clk now st)) = never \<or> now < snd (snd (clean_dns_servers cfg clk now st))"
proof -
  have "snd (snd (clean_dns_servers cfg clk now st)) = fst (snd (snd (clean_dns_servers_loop cfg clk now [] (dns_servers (rdata (fst st))) (fst (snd st)) (snd (snd st)) (fst st))))"
    by (simp add: clean_dns_servers_def case_prod_unfold Let_def)
  then show ?thesis
    using clean_dns_servers_loop_nextevent [OF assms] by simp
qed

lemma effects_clean_dns_domains:
  "effects (fst (clean_dns_domains cfg clk now st)) = effects (fst st)"
  by (simp add: clean_dns_domains_def case_prod_unfold Let_def clean_dns_domains_loop_priv)

lemma nextevent_clean_dns_domains:
  assumes "snd (snd st) = never \<or> now < snd (snd st)"
  shows "snd (snd (clean_dns_domains cfg clk now st)) = never \<or> now < snd (snd (clean_dns_domains cfg clk now st))"
proof -
  have "snd (snd (clean_dns_domains cfg clk now st)) = fst (snd (snd (clean_dns_domains_loop cfg clk now [] (dns_domains (rdata (fst st))) (fst (snd st)) (snd (snd st)) (fst st))))"
    by (simp add: clean_dns_domains_def case_prod_unfold Let_def)
  then show ?thesis
    using clean_dns_domains_loop_nextevent [OF assms] by simp
qed

lemma effects_clean_passes:
  "effects (fst (clean_passes cfg clk now changed priv)) = effects priv"
  unfolding clean_passes_def
  by (simp add: effects_clean_gateways effects_clean_addresses effects_clean_routes
        effects_clean_dns_servers effects_clean_dns_domains)

lemma nextevent_clean_passes:
  "snd (snd (clean_passes cfg clk now changed priv)) = never
   \<or> now < snd (snd (clean_passes cfg clk now changed priv))"
  unfolding clean_passes_def
  by (intro nextevent_clean_dns_domains nextevent_clean_dns_servers nextevent_clean_routes
        nextevent_clean_addresses nextevent_clean_gateways) simp

lemma effects_check_timestamps:
  "effects (check_timestamps cfg clk now changed priv) =
     effects priv @
       (if fst (snd (clean_passes cfg clk now changed priv)) \<noteq> {}
        then [CONFIG_CHANGED (rdata (fst (clean_passes cfg clk now changed priv)))
                (fst (snd (clean_passes cfg clk now changed priv)))]
        else [])"
proof -
  obtain p c n where r: "clean_passes cfg clk now changed priv = (p, c, n)"
    by (cases "clean_passes cfg clk now changed priv") auto
  have e: "effects p = effects priv"
    using effects_clean_passes [of cfg clk now changed priv] r by simp
  have n: "n = never \<or> now < n"
    using nextevent_clean_passes [of cfg clk now changed priv] r by simp
  show ?thesis
    using e n by (auto simp add: check_timestamps_def r emit_config_change_def Let_def)
qed

lemma timeout_clean_passes:
  "timeout_id (fst (clean_passes cfg clk now changed priv)) = None"
  by (simp add: clean_passes_def clean_gateways_def clean_addresses_def clean_routes_def
        clean_dns_servers_def clean_dns_domains_def case_prod_unfold Let_def
        clean_dns_servers_loop_priv clean_dns_domains_loop_priv)

lemma timeout_check_timestamps:
  "timeout_id (check_timestamps cfg clk now changed priv) =
     (if snd (snd (clean_passes cfg clk now changed priv)) \<noteq> never
      then Some (unat (snd (snd (clean_passes cfg clk now changed priv)) - now)) else None)"
proof -
  obtain p c n where r: "clean_passes cfg clk now changed priv = (p, c, n)"
    by (cases "clean_passes cfg clk now changed priv") auto
  have t: "timeout_id p = None"
    using timeout_clean_passes [of cfg clk now changed priv] r by simp
  have n: "n = never \<or> now < n"
    using nextevent_clean_passes [of cfg clk now changed priv] r by simp
  show ?thesis
    using t n by (auto simp add: check_timestamps_def r emit_config_change_def Let_def)
qed

section \<open>What each operation does to the arrays\<close>

lemma complete_address_lifetime:
  "ad_lifetime (snd (complete_address derive cfg priv addr)) = ad_lifetime addr"
  by (simp add: complete_address_def case_prod_unfold Let_def)

lemma dad_failed_loop_lifetime:
  "\<forall>x\<in>set kept. ad_lifetime x \<noteq> 0 \<Longrightarrow> \<forall>x\<in>set rest. ad_lifetime x \<noteq> 0
   \<Longrightarrow> \<forall>x\<in>set (fst (dad_failed_loop derive cfg priv address kept rest ch)). ad_lifetime x \<noteq> 0"
proof (induction rest arbitrary: kept ch)
  case Nil
  then show ?case by simp
next
  case (Cons item rest)
  let ?r = "complete_address derive cfg priv item"
  have l: "ad_lifetime (snd ?r) \<noteq> 0"
    using Cons.prems(2) by (simp add: complete_address_lifetime)
  have a: "\<And>c. \<forall>x\<in>set (fst (dad_failed_loop derive cfg priv address kept rest c)). ad_lifetime x \<noteq> 0"
    using Cons.prems by (intro Cons.IH) auto
  have b: "\<And>c. \<forall>x\<in>set (fst (dad_failed_loop derive cfg priv address (kept @ [item]) rest c)).
             ad_lifetime x \<noteq> 0"
    using Cons.prems by (intro Cons.IH) auto
  have c: "\<And>c. \<forall>x\<in>set (fst (dad_failed_loop derive cfg priv address (kept @ [snd ?r]) rest c)).
             ad_lifetime x \<noteq> 0"
    using Cons.prems l by (intro Cons.IH) auto
  show ?case using a b c by (simp add: case_prod_unfold Let_def)
qed

lemma dad_failed_loop_length:
  "length (fst (dad_failed_loop derive cfg priv address kept rest ch))
     \<le> length kept + length rest"
proof (induction rest arbitrary: kept ch)
  case Nil
  show ?case by simp
next
  case (Cons item rest)
  let ?r = "complete_address derive cfg priv item"
  have a: "\<And>c. length (fst (dad_failed_loop derive cfg priv address kept rest c))
              \<le> length kept + length rest"
    by (rule Cons.IH)
  have b: "\<And>c k. length (fst (dad_failed_loop derive cfg priv address (kept @ [k]) rest c))
              \<le> length (kept @ [k]) + length rest"
    by (rule Cons.IH)
  show ?case using a [of True] b [of item ch] b [of "snd ?r" True]
    by (simp add: case_prod_unfold Let_def)
qed

lemma rdata_add_gateway:
  "rdata (snd (nm_ndisc_add_gateway new s)) =
     (rdata s)\<lparr>gateways := snd (add_gateway_loop new [] (gateways (rdata s)) (- 1))\<rparr>"
  by (simp add: nm_ndisc_add_gateway_def case_prod_unfold Let_def)

lemma rdata_add_route:
  "rdata (snd (nm_ndisc_add_route new s)) =
     (if rt_plen new = 0 \<or> rt_plen new > 128 then rdata s
      else (rdata s)\<lparr>routes := snd (add_route_loop new [] (routes (rdata s)) (- 1))\<rparr>)"
  by (simp add: nm_ndisc_add_route_def case_prod_unfold Let_def)

lemma rdata_add_dns_server:
  "rdata (snd (nm_ndisc_add_dns_server new s)) =
     (rdata s)\<lparr>dns_servers := snd (add_dns_server_loop new [] (dns_servers (rdata s)))\<rparr>"
  by (simp add: nm_ndisc_add_dns_server_def case_prod_unfold Let_def)

lemma rdata_add_dns_domain:
  "rdata (snd (nm_ndisc_add_dns_domain new s)) =
     (rdata s)\<lparr>dns_domains := snd (add_dns_domain_loop new [] (dns_domains (rdata s)))\<rparr>"
  by (simp add: nm_ndisc_add_dns_domain_def case_prod_unfold Let_def)

lemma rdata_start: "rdata (nm_ndisc_start cfg clk klass_start netns_ok s) = rdata s"
  by (simp add: nm_ndisc_start_def Let_def)

lemma rdata_send_rs_timeout: "rdata (send_rs_timeout cfg clk netns_ok send_result s) = rdata s"
  by (cases send_result) (simp_all add: send_rs_timeout_def Let_def)

lemma rdata_ra_timeout_cb: "rdata (ndisc_ra_timeout_cb s) = rdata s"
  by (simp add: ndisc_ra_timeout_cb_def Let_def)

lemma rdata_set_iid:
  "rdata (snd (nm_ndisc_set_iid cfg clk new_iid s)) = rdata s
   \<or> rdata (snd (nm_ndisc_set_iid cfg clk new_iid s)) = (rdata s)\<lparr>addresses := []\<rparr>"
  by (simp add: nm_ndisc_set_iid_def Let_def emit_config_change_def)

lemma rdata_dad_failed:
  "rdata (nm_ndisc_dad_failed derive cfg address s) =
     (rdata s)\<lparr>addresses :=
        fst (dad_failed_loop derive cfg s address [] (addresses (rdata s)) False)\<rparr>"
  by (simp add: nm_ndisc_dad_failed_def case_prod_unfold Let_def emit_config_change_def)

lemma rdata_add_address:
  "rdata (snd (snd (nm_ndisc_complete_and_add_address derive cfg new0 s))) = rdata s
   \<or> (\<exists>c arr. add_address_loop (snd (complete_address derive cfg s new0)) []
                  (addresses (rdata s)) = Some (c, arr)
        \<and> rdata (snd (snd (nm_ndisc_complete_and_add_address derive cfg new0 s)))
            = (rdata s)\<lparr>addresses := arr\<rparr>)
   \<or> (ad_lifetime (snd (complete_address derive cfg s new0)) \<noteq> 0
        \<and> \<not> (max_addresses cfg \<noteq> 0 \<and> length (addresses (rdata s)) \<ge> u32 (max_addresses cfg))
        \<and> rdata (snd (snd (nm_ndisc_complete_and_add_address derive cfg new0 s)))
            = (rdata s)\<lparr>addresses := addresses (rdata s) @ [snd (complete_address derive cfg s new0)]\<rparr>)"
proof -
  obtain ok new where c: "complete_address derive cfg s new0 = (ok, new)"
    by (cases "complete_address derive cfg s new0") auto
  show ?thesis
  proof (cases "add_address_loop new [] (addresses (rdata s))")
    case None
    then show ?thesis
      by (simp add: nm_ndisc_complete_and_add_address_def c g_array_insert_val_def)
  next
    case (Some r)
    then show ?thesis
      by (cases r) (simp add: nm_ndisc_complete_and_add_address_def c)
  qed
qed

section \<open>The store invariant holds in every reachable state\<close>

lemma inv_add_gateway:
  assumes "store_inv cfg (rdata s)"
  shows "store_inv cfg (rdata (snd (nm_ndisc_add_gateway new s)))"
proof -
  have "\<forall>x\<in>set (snd (add_gateway_loop new [] (gateways (rdata s)) (- 1))). gw_lifetime x \<noteq> 0"
    using add_gateway_loop_set [of new "[]" "gateways (rdata s)" "- 1"] assms
    by (auto simp add: store_inv_def split: if_splits)
  then show ?thesis using assms by (simp add: rdata_add_gateway store_inv_def)
qed

lemma inv_add_route:
  assumes "store_inv cfg (rdata s)"
  shows "store_inv cfg (rdata (snd (nm_ndisc_add_route new s)))"
proof (cases "rt_plen new = 0 \<or> rt_plen new > 128")
  case True
  then show ?thesis using assms by (simp add: rdata_add_route)
next
  case False
  have "\<forall>x\<in>set (snd (add_route_loop new [] (routes (rdata s)) (- 1))).
          rt_lifetime x \<noteq> 0 \<and> 1 \<le> rt_plen x \<and> rt_plen x \<le> 128"
    using add_route_loop_set [of new "[]" "routes (rdata s)" "- 1"] assms False
    by (auto simp add: store_inv_def split: if_splits)
  then show ?thesis using assms False by (simp add: rdata_add_route store_inv_def)
qed

lemma inv_add_dns_server:
  assumes "store_inv cfg (rdata s)"
  shows "store_inv cfg (rdata (snd (nm_ndisc_add_dns_server new s)))"
proof -
  have "\<forall>x\<in>set (snd (add_dns_server_loop new [] (dns_servers (rdata s)))). ds_lifetime x \<noteq> 0"
    using add_dns_server_loop_set [of new "[]" "dns_servers (rdata s)"] assms
    by (auto simp add: store_inv_def split: if_splits)
  then show ?thesis using assms by (simp add: rdata_add_dns_server store_inv_def)
qed

lemma inv_add_dns_domain:
  assumes "store_inv cfg (rdata s)"
  shows "store_inv cfg (rdata (snd (nm_ndisc_add_dns_domain new s)))"
proof -
  have "\<forall>x\<in>set (snd (add_dns_domain_loop new [] (dns_domains (rdata s)))). dd_lifetime x \<noteq> 0"
    using assms by (intro add_dns_domain_loop_lifetime) (simp_all add: store_inv_def)
  then show ?thesis using assms by (simp add: rdata_add_dns_domain store_inv_def)
qed

lemma inv_add_address:
  assumes "store_inv cfg (rdata s)"
  shows "store_inv cfg (rdata (snd (snd (nm_ndisc_complete_and_add_address derive cfg new0 s))))"
proof -
  let ?new = "snd (complete_address derive cfg s new0)"
  let ?r = "rdata (snd (snd (nm_ndisc_complete_and_add_address derive cfg new0 s)))"
  consider (same) "?r = rdata s"
    | (found) c arr where "add_address_loop ?new [] (addresses (rdata s)) = Some (c, arr)"
        "?r = (rdata s)\<lparr>addresses := arr\<rparr>"
    | (append) "ad_lifetime ?new \<noteq> 0"
        "\<not> (max_addresses cfg \<noteq> 0 \<and> length (addresses (rdata s)) \<ge> u32 (max_addresses cfg))"
        "?r = (rdata s)\<lparr>addresses := addresses (rdata s) @ [?new]\<rparr>"
    using rdata_add_address [of derive cfg new0 s] by blast
  then show ?thesis
  proof cases
    case same
    then show ?thesis using assms by simp
  next
    case found
    have "set arr \<subseteq> set (addresses (rdata s)) \<union> (if ad_lifetime ?new \<noteq> 0 then {?new} else {})"
      using add_address_loop_set [OF found(1)] by simp
    then have a: "\<forall>x\<in>set arr. ad_lifetime x \<noteq> 0"
      using assms by (auto simp add: store_inv_def split: if_splits)
    have "length arr \<le> length (addresses (rdata s))"
      using add_address_loop_length [OF found(1)] by simp
    then show ?thesis using assms a by (auto simp add: found(2) store_inv_def)
  next
    case append
    have "0 < max_addresses cfg \<and> max_addresses cfg \<le> G_MAXINT32
            \<longrightarrow> int (length (addresses (rdata s))) < max_addresses cfg"
      using append(2) by (auto simp add: u32_cap)
    then show ?thesis using assms append(1) by (auto simp add: append(3) store_inv_def)
  qed
qed

lemma inv_check_timestamps:
  assumes "store_inv cfg (rdata s)"
  shows "store_inv cfg (rdata (check_timestamps cfg clk now changed s))"
  using assms
  by (auto simp add: rdata_check_timestamps rdata_clean_passes store_inv_def
        intro: filter_within_cap)

lemma inv_dad_failed:
  assumes "store_inv cfg (rdata s)"
  shows "store_inv cfg (rdata (nm_ndisc_dad_failed derive cfg address s))"
proof -
  let ?arr = "fst (dad_failed_loop derive cfg s address [] (addresses (rdata s)) False)"
  have a: "\<forall>x\<in>set ?arr. ad_lifetime x \<noteq> 0"
    using assms by (intro dad_failed_loop_lifetime) (simp_all add: store_inv_def)
  have "length ?arr \<le> length (addresses (rdata s))"
    using dad_failed_loop_length [of derive cfg s address "[]" "addresses (rdata s)" False]
    by simp
  then show ?thesis using assms a by (auto simp add: rdata_dad_failed store_inv_def)
qed

lemma inv_set_iid:
  assumes "store_inv cfg (rdata s)"
  shows "store_inv cfg (rdata (snd (nm_ndisc_set_iid cfg clk new_iid s)))"
  using rdata_set_iid [of cfg clk new_iid s] assms by (auto simp add: store_inv_def)

lemma reachable_store_inv:
  "reachable derive cfg s \<Longrightarrow> store_inv cfg (rdata s)"
proof (induction rule: reachable.induct)
  case r_init
  show ?case by (simp add: store_inv_def nm_ndisc_init_def)
next
  case (r_add_gateway s new)
  then show ?case by (simp add: inv_add_gateway)
next
  case (r_add_address s new)
  then show ?case by (simp add: inv_add_address)
next
  case (r_add_route s new)
  then show ?case by (simp add: inv_add_route)
next
  case (r_add_dns_server s new)
  then show ?case by (simp add: inv_add_dns_server)
next
  case (r_add_dns_domain s new)
  then show ?case by (simp add: inv_add_dns_domain)
next
  case (r_start s clk klass_start netns_ok)
  then show ?case by (simp add: rdata_start)
next
  case (r_send_rs_timeout s clk netns_ok send_result)
  then show ?case by (simp add: rdata_send_rs_timeout)
next
  case (r_ra_timeout_cb s)
  then show ?case by (simp add: rdata_ra_timeout_cb)
next
  case (r_timeout_cb s clk)
  then show ?case by (simp add: timeout_cb_def inv_check_timestamps)
next
  case (r_ra_received s clk now changed)
  then show ?case by (simp add: nm_ndisc_ra_received_def inv_check_timestamps)
next
  case (r_dad_failed s address)
  then show ?case by (simp add: inv_dad_failed)
next
  case (r_set_iid s clk new_iid)
  then show ?case by (simp add: inv_set_iid)
qed

section \<open>Identities stay unique in gateways, routes, DNS servers and DNS domains\<close>
















section \<open>Withdrawing an item with lifetime 0\<close>












section \<open>Evaluation of the example inputs\<close>

lemma swept_example_eval:
  "swept_example = nm_ndisc_init\<lparr>rdata := (rdata nm_ndisc_init)\<lparr>gateways := [gw_high]\<rparr>\<rparr>"
  by (simp add: swept_example_def nm_ndisc_add_gateway_def nm_ndisc_init_def
        g_array_insert_val_def gw_high_def)

lemma two_gateways_eval:
  "two_gateways = nm_ndisc_init\<lparr>rdata := (rdata nm_ndisc_init)\<lparr>gateways := [gw_short, gw_high]\<rparr>\<rparr>"
  by (simp add: two_gateways_def nm_ndisc_add_gateway_def nm_ndisc_init_def
        g_array_insert_val_def gw_high_def gw_short_def
        NM_NDISC_PREFERENCE_HIGH_def NM_NDISC_PREFERENCE_MEDIUM_def)

lemma two_gateways_reachable: "reachable derive cfg two_gateways"
  unfolding two_gateways_def by (intro r_add_gateway r_init)

lemma with_iid_eval: "with_iid = nm_ndisc_init\<lparr>iid := 0x0200112233445566\<rparr>"
  by (simp add: with_iid_def nm_ndisc_set_iid_def nm_ndisc_init_def example_config_def)

lemma example_complete:
  "complete_address example_derive example_config with_iid example_prefix = (True, example_address)"
  by (simp add: complete_address_def example_config_def with_iid_eval nm_ndisc_init_def
        example_prefix_def example_address_def nm_utils_ipv6_addr_set_interface_identifier_def)

lemma with_address_eval:
  "with_address = with_iid\<lparr>rdata := (rdata with_iid)\<lparr>addresses := [example_address]\<rparr>\<rparr>"
  unfolding with_address_def nm_ndisc_complete_and_add_address_def example_complete
  by (simp add: g_array_insert_val_def with_iid_eval nm_ndisc_init_def example_address_def
        example_prefix_def example_config_def u32_def)

lemma capped_state_eval:
  "capped_state = nm_ndisc_init\<lparr>iid := 0x0200112233445566,
      rdata := (rdata nm_ndisc_init)\<lparr>addresses := [example_address]\<rparr>\<rparr>"
  by (simp add: capped_state_def nm_ndisc_complete_and_add_address_def complete_address_def
        nm_ndisc_set_iid_def cap_config_def example_config_def nm_ndisc_init_def
        example_prefix_def example_address_def nm_utils_ipv6_addr_set_interface_identifier_def
        g_array_insert_val_def u32_def)

lemma capped_state_reachable: "reachable example_derive cap_config capped_state"
  unfolding capped_state_def by (intro r_add_address r_set_iid r_init)

lemma second_complete:
  "complete_address example_derive cap_config capped_state second_prefix = (True, second_address)"
  by (simp add: complete_address_def cap_config_def example_config_def capped_state_eval
        nm_ndisc_init_def second_prefix_def second_address_def example_prefix_def
        nm_utils_ipv6_addr_set_interface_identifier_def)

lemma failing_burst_eval:
  "new_effects nm_ndisc_init
     (rs_burst single_rs_config failing_ticks (solicit single_rs_config 0 nm_ndisc_init))
   = [KLASS_SEND_RS False, KLASS_SEND_RS False, KLASS_SEND_RS True]"
  by (simp add: new_effects_def failing_ticks_def solicit_def send_rs_timeout_def Let_def
        single_rs_config_def example_config_def nm_ndisc_init_def s32_def s64_def u32_def
        CLAMP_def G_MAXINT32_def G_MININT32_def)

lemma mixed_burst_eval:
  "new_effects nm_ndisc_init
     (rs_burst example_config mixed_ticks (solicit example_config 0 nm_ndisc_init))
   = [KLASS_SEND_RS False, KLASS_SEND_RS True, KLASS_SEND_RS True, KLASS_SEND_RS False,
      KLASS_SEND_RS True]"
  by (simp add: new_effects_def mixed_ticks_def solicit_def send_rs_timeout_def Let_def
        example_config_def nm_ndisc_init_def s32_def s64_def u32_def
        CLAMP_def G_MAXINT32_def G_MININT32_def)













section \<open>The claims\<close>

text \<open>
  Claim C1 (preference order). The claim is that \<open>nm_ndisc_add_gateway\<close> and
  \<open>nm_ndisc_add_route\<close> keep their arrays in non-increasing preference order, ties in
  insertion order. The code aims at this order (it puts a new item before the first less
  preferred one) but does not keep it: when no stored item is less preferred than the new
  one, \<open>insert_idx\<close> is still \<open>-1\<close> after the scan and the new item is inserted at index
  \<open>MAX (insert_idx, 0) = 0\<close>, the head of the array. Adding a high-preference gateway and then a low-preference one to the empty store
  leaves the low one first; the same happens for routes.
\<close>

theorem add_low_after_high_breaks_order:
  "gateways (rdata (snd (nm_ndisc_add_gateway gw_low
       (snd (nm_ndisc_add_gateway gw_high nm_ndisc_init))))) = [gw_low, gw_high]
   \<and> \<not> sorted_wrt (\<lambda>a b. gw_preference a \<ge> gw_preference b)
         (gateways (rdata (snd (nm_ndisc_add_gateway gw_low
            (snd (nm_ndisc_add_gateway gw_high nm_ndisc_init))))))
   \<and> routes (rdata (snd (nm_ndisc_add_route rt_low
       (snd (nm_ndisc_add_route rt_high nm_ndisc_init))))) = [rt_low, rt_high]
   \<and> \<not> sorted_wrt (\<lambda>a b. rt_preference a \<ge> rt_preference b)
         (routes (rdata (snd (nm_ndisc_add_route rt_low
            (snd (nm_ndisc_add_route rt_high nm_ndisc_init))))))"
  by (simp add: nm_ndisc_add_gateway_def nm_ndisc_add_route_def nm_ndisc_init_def
        gw_low_def gw_high_def rt_low_def rt_high_def g_array_insert_val_def CLAMP_def
        G_MAXINT32_def NM_NDISC_PREFERENCE_LOW_def NM_NDISC_PREFERENCE_HIGH_def)

text \<open>
  Claim C2 (solicitation bound), as amended. In a burst started by a \<open>solicit\<close> that armed
  the send timer, the transport's \<open>send_rs\<close> succeeds at most \<open>router_solicitations\<close> times,
  for every sequence of tick outcomes, and the burst is over once it has succeeded that
  often. The \<open>solicit\<close> leaves the send timer pending, so the burst does start. A failed send is not counted: \<open>solicitations_left\<close> is always
  \<open>router_solicitations\<close> minus the number of successful sends. While the send timer is
  pending, a tick whose send fails invokes \<open>send_rs\<close> once, leaves \<open>solicitations_left\<close> as it
  is and re-arms the timer with \<open>router_solicitation_interval\<close> seconds (the send is
  retried); a tick whose send succeeds invokes \<open>send_rs\<close> once, decrements
  \<open>solicitations_left\<close> and re-arms the timer only if sends are left. The claim as stated
  (at most \<open>router_solicitations\<close> invocations) fails when sends fail. A \<open>solicit\<close> call
  while the send timer is pending changes nothing (\<open>solicit_while_pending\<close>), so the ticks
  of a burst are all that happens to the pacer in it.
\<close>

theorem burst_successful_sends_bounded:
  assumes "1 \<le> router_solicitations cfg" and "router_solicitations cfg \<le> G_MAXINT32"
    and "send_rs_id priv = None"
  shows "send_rs_id (solicit cfg clk priv) \<noteq> None
       \<and> (\<forall>e\<in>set (new_effects priv (rs_burst cfg ticks (solicit cfg clk priv))). is_send_rs e)
       \<and> int (count_sent (new_effects priv (rs_burst cfg ticks (solicit cfg clk priv))))
           \<le> router_solicitations cfg
       \<and> solicitations_left (rs_burst cfg ticks (solicit cfg clk priv))
           = router_solicitations cfg
             - int (count_sent (new_effects priv (rs_burst cfg ticks (solicit cfg clk priv))))
       \<and> (int (count_sent (new_effects priv (rs_burst cfg ticks (solicit cfg clk priv))))
             = router_solicitations cfg
           \<longrightarrow> send_rs_id (rs_burst cfg ticks (solicit cfg clk priv)) = None)
       \<and> (send_rs_id (rs_burst cfg ticks (solicit cfg clk priv)) \<noteq> None \<longrightarrow>
            new_effects priv
              (rs_burst cfg (ticks @ [(clk', True, Some message)]) (solicit cfg clk priv))
              = new_effects priv (rs_burst cfg ticks (solicit cfg clk priv))
                  @ [KLASS_SEND_RS False]
            \<and> solicitations_left
                (rs_burst cfg (ticks @ [(clk', True, Some message)]) (solicit cfg clk priv))
              = solicitations_left (rs_burst cfg ticks (solicit cfg clk priv))
            \<and> send_rs_id
                (rs_burst cfg (ticks @ [(clk', True, Some message)]) (solicit cfg clk priv))
              = Some (u32 (router_solicitation_interval cfg)))
       \<and> (send_rs_id (rs_burst cfg ticks (solicit cfg clk priv)) \<noteq> None \<longrightarrow>
            new_effects priv
              (rs_burst cfg (ticks @ [(clk', True, None)]) (solicit cfg clk priv))
              = new_effects priv (rs_burst cfg ticks (solicit cfg clk priv))
                  @ [KLASS_SEND_RS True]
            \<and> solicitations_left
                (rs_burst cfg (ticks @ [(clk', True, None)]) (solicit cfg clk priv))
              = solicitations_left (rs_burst cfg ticks (solicit cfg clk priv)) - 1
            \<and> send_rs_id
                (rs_burst cfg (ticks @ [(clk', True, None)]) (solicit cfg clk priv))
              = (if 1 < solicitations_left (rs_burst cfg ticks (solicit cfg clk priv))
                 then Some (u32 (router_solicitation_interval cfg)) else None))"
proof -
  let ?s = "solicit cfg clk priv"
  let ?b = "rs_burst cfg ticks ?s"
  have left: "solicitations_left ?s = router_solicitations cfg"
    using assms(3) by (simp add: solicit_def Let_def)
  obtain evs where evs: "effects ?b = effects ?s @ evs"
    "\<forall>e\<in>set evs. is_send_rs e"
    "int (count_sent evs) \<le> solicitations_left ?s"
    "solicitations_left ?b = solicitations_left ?s - int (count_sent evs)"
    "int (count_sent evs) = solicitations_left ?s \<longrightarrow> send_rs_id ?b = None"
    using rs_burst_effects [of ?s cfg ticks] assms(1,2) left by auto
  have new: "new_effects priv ?b = evs"
    using evs(1) by (simp add: new_effects_def)
  have eb: "effects ?b = effects priv @ evs" using evs(1) by simp
  have pending: "send_rs_id ?b \<noteq> None
                   \<Longrightarrow> 1 \<le> solicitations_left ?b \<and> solicitations_left ?b \<le> G_MAXINT32"
    using evs(3-5) left assms(2) by auto
  have next_tick: "\<And>r. send_rs_id ?b \<noteq> None \<Longrightarrow>
      rs_burst cfg (ticks @ [(clk', True, r)]) ?s = send_rs_timeout cfg clk' True r ?b"
    by (auto simp add: rs_burst_append)
  have failed: "send_rs_id ?b \<noteq> None \<longrightarrow>
      new_effects priv (rs_burst cfg (ticks @ [(clk', True, Some message)]) ?s)
        = evs @ [KLASS_SEND_RS False]
      \<and> solicitations_left (rs_burst cfg (ticks @ [(clk', True, Some message)]) ?s)
        = solicitations_left ?b
      \<and> send_rs_id (rs_burst cfg (ticks @ [(clk', True, Some message)]) ?s)
        = Some (u32 (router_solicitation_interval cfg))"
  proof
    assume p: "send_rs_id ?b \<noteq> None"
    have "0 < solicitations_left ?b" using pending [OF p] by simp
    then show "new_effects priv (rs_burst cfg (ticks @ [(clk', True, Some message)]) ?s)
        = evs @ [KLASS_SEND_RS False]
      \<and> solicitations_left (rs_burst cfg (ticks @ [(clk', True, Some message)]) ?s)
        = solicitations_left ?b
      \<and> send_rs_id (rs_burst cfg (ticks @ [(clk', True, Some message)]) ?s)
        = Some (u32 (router_solicitation_interval cfg))"
      using failed_tick [of ?b cfg clk' message] eb
      by (simp add: next_tick [OF p] new_effects_def)
  qed
  have sent: "send_rs_id ?b \<noteq> None \<longrightarrow>
      new_effects priv (rs_burst cfg (ticks @ [(clk', True, None)]) ?s)
        = evs @ [KLASS_SEND_RS True]
      \<and> solicitations_left (rs_burst cfg (ticks @ [(clk', True, None)]) ?s)
        = solicitations_left ?b - 1
      \<and> send_rs_id (rs_burst cfg (ticks @ [(clk', True, None)]) ?s)
        = (if 1 < solicitations_left ?b
           then Some (u32 (router_solicitation_interval cfg)) else None)"
  proof
    assume p: "send_rs_id ?b \<noteq> None"
    have r: "1 \<le> solicitations_left ?b" "solicitations_left ?b \<le> G_MAXINT32"
      using pending [OF p] by simp_all
    show "new_effects priv (rs_burst cfg (ticks @ [(clk', True, None)]) ?s)
        = evs @ [KLASS_SEND_RS True]
      \<and> solicitations_left (rs_burst cfg (ticks @ [(clk', True, None)]) ?s)
        = solicitations_left ?b - 1
      \<and> send_rs_id (rs_burst cfg (ticks @ [(clk', True, None)]) ?s)
        = (if 1 < solicitations_left ?b
           then Some (u32 (router_solicitation_interval cfg)) else None)"
      using successful_tick [OF r, of cfg clk'] eb
      by (simp add: next_tick [OF p] new_effects_def)
  qed
  show ?thesis
    unfolding new using evs(2-5) left failed sent solicit_pending [of cfg clk priv]
    by (simp add: new)
qed

theorem burst_invocations_counterexample:
  "router_solicitations single_rs_config = 1
   \<and> length (filter is_send_rs
        (new_effects nm_ndisc_init
           (rs_burst single_rs_config failing_ticks (solicit single_rs_config 0 nm_ndisc_init))))
       = 3"
  by (simp add: failing_burst_eval) (simp add: single_rs_config_def example_config_def)

theorem burst_successful_sends_bounded_witness:
  "count_sent (new_effects nm_ndisc_init
       (rs_burst example_config mixed_ticks (solicit example_config 0 nm_ndisc_init))) = 3
   \<and> solicitations_left
        (rs_burst example_config mixed_ticks (solicit example_config 0 nm_ndisc_init)) = 0
   \<and> send_rs_id (rs_burst example_config mixed_ticks (solicit example_config 0 nm_ndisc_init))
       = None
   \<and> new_effects nm_ndisc_init
        (rs_burst example_config [(0, True, Some ''no link-local address'')]
           (solicit example_config 0 nm_ndisc_init)) = [KLASS_SEND_RS False]
   \<and> solicitations_left
        (rs_burst example_config [(0, True, Some ''no link-local address'')]
           (solicit example_config 0 nm_ndisc_init)) = 3
   \<and> send_rs_id
        (rs_burst example_config [(0, True, Some ''no link-local address'')]
           (solicit example_config 0 nm_ndisc_init)) = Some 4"
proof -
  have h: "1 \<le> router_solicitations example_config"
    "router_solicitations example_config \<le> G_MAXINT32"
    "send_rs_id nm_ndisc_init = None"
    by (simp_all add: example_config_def G_MAXINT32_def nm_ndisc_init_def)
  have v: "router_solicitations example_config = 3"
    "u32 (router_solicitation_interval example_config) = 4"
    by (simp_all add: example_config_def u32_def)
  have c: "count_sent [KLASS_SEND_RS False, KLASS_SEND_RS True, KLASS_SEND_RS True,
             KLASS_SEND_RS False, KLASS_SEND_RS True] = 3"
    by (simp add: count_sent_def)
  have start: "rs_burst example_config [] (solicit example_config 0 nm_ndisc_init)
                 = solicit example_config 0 nm_ndisc_init"
    "new_effects nm_ndisc_init (solicit example_config 0 nm_ndisc_init) = []"
    "solicitations_left (solicit example_config 0 nm_ndisc_init) = 3"
    by (simp_all add: new_effects_def solicit_def Let_def nm_ndisc_init_def example_config_def)
  have pending: "send_rs_id (solicit example_config 0 nm_ndisc_init) \<noteq> None"
    by (rule solicit_pending)
  have a: "count_sent (new_effects nm_ndisc_init
       (rs_burst example_config mixed_ticks (solicit example_config 0 nm_ndisc_init))) = 3
     \<and> solicitations_left
        (rs_burst example_config mixed_ticks (solicit example_config 0 nm_ndisc_init)) = 0
     \<and> send_rs_id (rs_burst example_config mixed_ticks (solicit example_config 0 nm_ndisc_init))
       = None"
    using burst_successful_sends_bounded [OF h, where ticks = mixed_ticks and clk = 0] v(1)
    by (simp add: mixed_burst_eval c)
  have b: "new_effects nm_ndisc_init
        (rs_burst example_config [(0, True, Some ''no link-local address'')]
           (solicit example_config 0 nm_ndisc_init)) = [KLASS_SEND_RS False]
   \<and> solicitations_left
        (rs_burst example_config [(0, True, Some ''no link-local address'')]
           (solicit example_config 0 nm_ndisc_init)) = 3
   \<and> send_rs_id
        (rs_burst example_config [(0, True, Some ''no link-local address'')]
           (solicit example_config 0 nm_ndisc_init)) = Some 4"
    using burst_successful_sends_bounded
            [OF h, where ticks = "[]" and clk = 0 and clk' = 0
               and message = "''no link-local address''"] pending
    unfolding append_Nil start v by blast
  show ?thesis using a b by blast
qed

text \<open>
  Claim C3 (frame of \<open>complete_address\<close>), as amended. On success the high 64 bits of the
  address are unchanged, in both modes. On failure the 128-bit address and the timestamps
  and lifetimes are unchanged; in EUI-64 mode the whole record is unchanged, but in
  stable-privacy mode \<open>dad_counter\<close> has been incremented, because \<open>addr->dad_counter++\<close> is
  an argument of the derivation call and is evaluated whether or not the derivation fails.
  The claim as stated (the record is entirely unchanged on failure in both modes) fails for
  a stable-privacy address whose derivation fails.
\<close>

theorem complete_address_frame:
  "(fst (complete_address derive cfg priv addr) \<longrightarrow>
      drop_bit 64 (ad_address (snd (complete_address derive cfg priv addr)))
        = drop_bit 64 (ad_address addr))
   \<and> (\<not> fst (complete_address derive cfg priv addr) \<longrightarrow>
      snd (complete_address derive cfg priv addr) =
        (if addr_gen_mode cfg = ADDR_GEN_MODE_STABLE_PRIVACY
         then addr\<lparr>ad_dad_counter := ad_dad_counter addr + 1\<rparr> else addr))"
  by (cases "derive (stable_type cfg) (ad_address addr) (ifname cfg) (network_id cfg)
               (ad_dad_counter addr)")
     (simp_all add: complete_address_def nm_utils_ipv6_addr_set_stable_privacy_def Let_def
        interface_identifier_prefix)

theorem complete_address_failure_counterexample:
  "fst (complete_address example_derive example_config_sp nm_ndisc_init addr_exhausted) = False
   \<and> snd (complete_address example_derive example_config_sp nm_ndisc_init addr_exhausted)
       \<noteq> addr_exhausted"
  by (simp add: complete_address_def nm_utils_ipv6_addr_set_stable_privacy_def Let_def
        example_derive_def example_config_sp_def example_config_def addr_exhausted_def)

theorem complete_address_frame_witness:
  "fst (complete_address example_derive example_config with_iid example_prefix)
   \<and> drop_bit 64 (ad_address (snd (complete_address example_derive example_config with_iid
                                      example_prefix)))
       = drop_bit 64 (ad_address example_prefix)
   \<and> \<not> fst (complete_address example_derive example_config_sp nm_ndisc_init addr_exhausted)
   \<and> snd (complete_address example_derive example_config_sp nm_ndisc_init addr_exhausted)
       = addr_exhausted\<lparr>ad_dad_counter := 4\<rparr>
   \<and> \<not> fst (complete_address example_derive example_config with_iid example_address)
   \<and> snd (complete_address example_derive example_config with_iid example_address)
       = example_address"
proof -
  have a: "fst (complete_address example_derive example_config with_iid example_prefix)"
    by (simp add: example_complete)
  have b: "\<not> fst (complete_address example_derive example_config_sp nm_ndisc_init addr_exhausted)"
    by (simp add: complete_address_def nm_utils_ipv6_addr_set_stable_privacy_def Let_def
          example_derive_def example_config_sp_def example_config_def addr_exhausted_def)
  have c: "\<not> fst (complete_address example_derive example_config with_iid example_address)"
    by (simp add: complete_address_def example_config_def with_iid_eval nm_ndisc_init_def
          example_address_def example_prefix_def)
  have m: "addr_gen_mode example_config = ADDR_GEN_MODE_EUI64"
    "addr_gen_mode example_config_sp = ADDR_GEN_MODE_STABLE_PRIVACY"
    by (simp_all add: example_config_def example_config_sp_def)
  have d: "ad_dad_counter addr_exhausted + 1 = 4" by (simp add: addr_exhausted_def)
  show ?thesis
    using complete_address_frame [of example_derive example_config with_iid example_prefix]
      complete_address_frame [of example_derive example_config_sp nm_ndisc_init addr_exhausted]
      complete_address_frame [of example_derive example_config with_iid example_address]
      a b c m d
    by simp
qed

text \<open>
  Claim C4 (\<open>nm_ndisc_set_iid\<close>). An unchanged identifier returns FALSE and changes nothing.
  A different identifier is stored; in stable-privacy mode the call returns FALSE and leaves
  the addresses as they are; in EUI-64 mode it returns TRUE, and if the address array is not
  empty it empties the array, emits \<open>CONFIG_CHANGED\<close> with the ADDRESSES flag and calls
  \<open>solicit\<close> (after which a send timer is pending).
\<close>

theorem set_iid_semantics:
  "(iid priv = new_iid \<longrightarrow> nm_ndisc_set_iid cfg clk new_iid priv = (False, priv))
   \<and> (iid priv \<noteq> new_iid \<and> addr_gen_mode cfg = ADDR_GEN_MODE_STABLE_PRIVACY \<longrightarrow>
        nm_ndisc_set_iid cfg clk new_iid priv = (False, priv\<lparr>iid := new_iid\<rparr>))
   \<and> (iid priv \<noteq> new_iid \<and> addr_gen_mode cfg = ADDR_GEN_MODE_EUI64
        \<and> addresses (rdata priv) = [] \<longrightarrow>
        nm_ndisc_set_iid cfg clk new_iid priv = (True, priv\<lparr>iid := new_iid\<rparr>))
   \<and> (iid priv \<noteq> new_iid \<and> addr_gen_mode cfg = ADDR_GEN_MODE_EUI64
        \<and> addresses (rdata priv) \<noteq> [] \<longrightarrow>
        nm_ndisc_set_iid cfg clk new_iid priv =
          (True, solicit cfg clk
                   (emit_config_change {NM_NDISC_CONFIG_ADDRESSES}
                      (priv\<lparr>iid := new_iid, rdata := (rdata priv)\<lparr>addresses := []\<rparr>\<rparr>)))
        \<and> iid (snd (nm_ndisc_set_iid cfg clk new_iid priv)) = new_iid
        \<and> rdata (snd (nm_ndisc_set_iid cfg clk new_iid priv)) = (rdata priv)\<lparr>addresses := []\<rparr>
        \<and> effects (snd (nm_ndisc_set_iid cfg clk new_iid priv)) =
            effects priv @ [CONFIG_CHANGED ((rdata priv)\<lparr>addresses := []\<rparr>)
                              {NM_NDISC_CONFIG_ADDRESSES}]
        \<and> send_rs_id (snd (nm_ndisc_set_iid cfg clk new_iid priv)) \<noteq> None
        \<and> (send_rs_id priv = None \<longrightarrow>
             solicitations_left (snd (nm_ndisc_set_iid cfg clk new_iid priv))
               = router_solicitations cfg))"
  by (cases "addr_gen_mode cfg")
     (simp_all add: nm_ndisc_set_iid_def Let_def emit_config_change_def solicit_pending
        solicit_def)

theorem set_iid_semantics_witness:
  "nm_ndisc_set_iid example_config 5 0x0200112233445566 with_address = (False, with_address)
   \<and> fst (nm_ndisc_set_iid example_config 5 0x02AABBCCDDEEFF00 with_address) = True
   \<and> addresses (rdata (snd (nm_ndisc_set_iid example_config 5 0x02AABBCCDDEEFF00 with_address))) = []
   \<and> effects (snd (nm_ndisc_set_iid example_config 5 0x02AABBCCDDEEFF00 with_address)) =
        [CONFIG_CHANGED ((rdata with_address)\<lparr>addresses := []\<rparr>) {NM_NDISC_CONFIG_ADDRESSES}]
   \<and> nm_ndisc_set_iid example_config_sp 5 0x02AABBCCDDEEFF00 with_address =
        (False, with_address\<lparr>iid := 0x02AABBCCDDEEFF00\<rparr>)"
proof -
  have i: "iid with_address = 0x0200112233445566"
    by (simp add: with_address_eval with_iid_eval)
  have a: "addresses (rdata with_address) \<noteq> []" "effects with_address = []"
    by (simp_all add: with_address_eval with_iid_eval nm_ndisc_init_def)
  have m: "addr_gen_mode example_config = ADDR_GEN_MODE_EUI64"
    "addr_gen_mode example_config_sp = ADDR_GEN_MODE_STABLE_PRIVACY"
    by (simp_all add: example_config_def example_config_sp_def)
  have n: "iid with_address \<noteq> 0x02AABBCCDDEEFF00" by (simp add: i)
  show ?thesis
    using set_iid_semantics [of with_address "0x0200112233445566" example_config 5]
      set_iid_semantics [of with_address "0x02AABBCCDDEEFF00" example_config 5]
      set_iid_semantics [of with_address "0x02AABBCCDDEEFF00" example_config_sp 5]
      i a m n
    by (simp add: emit_config_change_def)
qed

text \<open>
  Claim C5 (expiry drives removal). After \<open>check_timestamps\<close> at time \<open>now\<close>, every item left
  in any of the five arrays has the infinite lifetime \<open>G_MAXUINT32\<close>, or its expiry
  \<open>(guint64) timestamp + lifetime\<close>, computed on 64-bit words, is strictly greater than \<open>now\<close>.
\<close>

theorem sweep_keeps_only_unexpired:
  "(\<forall>x\<in>set (gateways (rdata (check_timestamps cfg clk now changed priv))).
      gw_lifetime x = G_MAXUINT32
      \<or> (ucast now :: 64 word) < ucast (gw_timestamp x) + ucast (gw_lifetime x))
   \<and> (\<forall>x\<in>set (addresses (rdata (check_timestamps cfg clk now changed priv))).
      ad_lifetime x = G_MAXUINT32
      \<or> (ucast now :: 64 word) < ucast (ad_timestamp x) + ucast (ad_lifetime x))
   \<and> (\<forall>x\<in>set (routes (rdata (check_timestamps cfg clk now changed priv))).
      rt_lifetime x = G_MAXUINT32
      \<or> (ucast now :: 64 word) < ucast (rt_timestamp x) + ucast (rt_lifetime x))
   \<and> (\<forall>x\<in>set (dns_servers (rdata (check_timestamps cfg clk now changed priv))).
      ds_lifetime x = G_MAXUINT32
      \<or> (ucast now :: 64 word) < ucast (ds_timestamp x) + ucast (ds_lifetime x))
   \<and> (\<forall>x\<in>set (dns_domains (rdata (check_timestamps cfg clk now changed priv))).
      dd_lifetime x = G_MAXUINT32
      \<or> (ucast now :: 64 word) < ucast (dd_timestamp x) + ucast (dd_lifetime x))"
  by (simp add: rdata_check_timestamps rdata_clean_passes expiry_64bit)

theorem sweep_keeps_only_unexpired_witness:
  "gateways (rdata (check_timestamps example_config 10 10 {} two_gateways)) = [gw_high]
   \<and> (gw_lifetime gw_high = G_MAXUINT32
        \<or> (ucast (10 :: guint32) :: 64 word)
            < ucast (gw_timestamp gw_high) + ucast (gw_lifetime gw_high))"
proof -
  have "gateways (rdata (check_timestamps example_config 10 10 {} two_gateways)) = [gw_high]"
    by (simp add: rdata_check_timestamps rdata_clean_passes two_gateways_eval nm_ndisc_init_def
          gw_high_def gw_short_def G_MAXUINT32_def)
  then show ?thesis
    using sweep_keeps_only_unexpired [of example_config 10 10 "{}" two_gateways] by simp
qed




text \<open>
  Claim C7 (address cap). With a cap \<open>max_addresses\<close> between 1 and \<open>G_MAXINT32\<close>, no
  reachable state holds more than \<open>max_addresses\<close> addresses. When the completed address
  matches no stored address and its lifetime is not 0, \<open>nm_ndisc_complete_and_add_address\<close>
  appends it and returns TRUE if the array holds fewer than \<open>max_addresses\<close> items, and
  otherwise returns FALSE and leaves the store as it is.
\<close>

theorem address_cap_enforced:
  assumes "reachable derive cfg s" and "0 < max_addresses cfg"
    and "max_addresses cfg \<le> G_MAXINT32"
  shows "int (length (addresses (rdata s))) \<le> max_addresses cfg
     \<and> (fst (complete_address derive cfg s a) \<and> ad_lifetime a \<noteq> 0
          \<and> (\<forall>x\<in>set (addresses (rdata s)).
                ad_address x \<noteq> ad_address (snd (complete_address derive cfg s a)))
        \<longrightarrow> nm_ndisc_complete_and_add_address derive cfg a s =
             (if int (length (addresses (rdata s))) < max_addresses cfg
              then (True, snd (complete_address derive cfg s a),
                    s\<lparr>rdata := (rdata s)\<lparr>addresses :=
                         addresses (rdata s) @ [snd (complete_address derive cfg s a)]\<rparr>\<rparr>)
              else (False, snd (complete_address derive cfg s a), s)))"
proof -
  have inv: "store_inv cfg (rdata s)"
    using assms(1) by (rule reachable_store_inv)
  have cap: "int (length (addresses (rdata s))) \<le> max_addresses cfg"
    using inv assms(2,3) by (simp add: store_inv_def)
  have u: "u32 (max_addresses cfg) = nat (max_addresses cfg)"
    using assms(2,3) by (rule u32_cap)
  obtain ok new where c: "complete_address derive cfg s a = (ok, new)"
    by (cases "complete_address derive cfg s a") auto
  have l: "ad_lifetime new = ad_lifetime a"
    using complete_address_lifetime [of derive cfg s a] c by simp
  have "ok \<and> ad_lifetime a \<noteq> 0 \<and> (\<forall>x\<in>set (addresses (rdata s)). ad_address x \<noteq> ad_address new)
        \<longrightarrow> nm_ndisc_complete_and_add_address derive cfg a s =
             (if int (length (addresses (rdata s))) < max_addresses cfg
              then (True, new, s\<lparr>rdata := (rdata s)\<lparr>addresses := addresses (rdata s) @ [new]\<rparr>\<rparr>)
              else (False, new, s))"
    using assms(2) l
    by (auto simp add: nm_ndisc_complete_and_add_address_def c add_address_loop_no_match u
          g_array_insert_val_def)
  then show ?thesis using cap c by simp
qed

theorem address_cap_enforced_witness:
  "reachable example_derive cap_config capped_state
   \<and> int (length (addresses (rdata capped_state))) \<le> 1
   \<and> nm_ndisc_complete_and_add_address example_derive cap_config second_prefix capped_state =
       (False, second_address, capped_state)"
proof -
  have r: "reachable example_derive cap_config capped_state"
    by (rule capped_state_reachable)
  have m: "0 < max_addresses cap_config" "max_addresses cap_config \<le> G_MAXINT32"
    "max_addresses cap_config = 1"
    by (simp_all add: cap_config_def example_config_def G_MAXINT32_def)
  have a: "addresses (rdata capped_state) = [example_address]"
    by (simp add: capped_state_eval nm_ndisc_init_def)
  have n: "ad_address example_address \<noteq> ad_address second_address"
    "ad_lifetime second_prefix \<noteq> 0"
    by (simp_all add: example_address_def second_address_def second_prefix_def example_prefix_def)
  show ?thesis
    using r address_cap_enforced [OF r m(1,2), of second_prefix] m(3) n
    by (simp add: second_complete a)
qed

text \<open>
  Claim C8 (refresh in place). When the scan of \<open>nm_ndisc_add_gateway\<close> finds its first
  identity match at index \<open>k\<close>, the match has the preference of the new item and the new
  lifetime is not zero, the stored item is overwritten with the new item (all fields, at the
  same index) and the function returns FALSE, whatever the timestamps and lifetimes are.
\<close>

theorem add_gateway_refresh_in_place:
  assumes k: "k < length (gateways (rdata priv))"
    and match: "gw_address (gateways (rdata priv) ! k) = gw_address new"
    and first: "\<forall>j<k. gw_address (gateways (rdata priv) ! j) \<noteq> gw_address new"
    and pref: "gw_preference (gateways (rdata priv) ! k) = gw_preference new"
    and life: "gw_lifetime new \<noteq> 0"
  shows "nm_ndisc_add_gateway new priv =
           (False, priv\<lparr>rdata := (rdata priv)\<lparr>gateways := (gateways (rdata priv))[k := new]\<rparr>\<rparr>)"
proof -
  let ?xs = "gateways (rdata priv)"
  have split: "?xs = take k ?xs @ ?xs ! k # drop (Suc k) ?xs"
    using k by (rule id_take_nth_drop)
  have pre: "\<forall>x\<in>set (take k ?xs). gw_address x \<noteq> gw_address new"
    using first k by (auto simp: in_set_conv_nth)
  have "add_gateway_loop new [] (take k ?xs @ ?xs ! k # drop (Suc k) ?xs) (- 1)
          = (False, [] @ take k ?xs @ new # drop (Suc k) ?xs)"
    using pre match pref life by (rule add_gateway_loop_refresh)
  then have "add_gateway_loop new [] ?xs (- 1) = (False, ?xs[k := new])"
    using split k by (simp add: upd_conv_take_nth_drop)
  then show ?thesis by (simp add: nm_ndisc_add_gateway_def)
qed

theorem add_gateway_refresh_in_place_witness:
  "nm_ndisc_add_gateway (gw_high\<lparr>gw_timestamp := 100, gw_lifetime := 5\<rparr>) two_gateways =
     (False, two_gateways\<lparr>rdata := (rdata two_gateways)
        \<lparr>gateways := [gw_short, gw_high\<lparr>gw_timestamp := 100, gw_lifetime := 5\<rparr>]\<rparr>\<rparr>)"
  using add_gateway_refresh_in_place
    [of 1 two_gateways "gw_high\<lparr>gw_timestamp := 100, gw_lifetime := 5\<rparr>"]
  by (simp add: two_gateways_eval nm_ndisc_init_def gw_high_def gw_short_def less_Suc_eq)

text \<open>
  Claim C9 (first-RA timeout). With \<open>router_solicitations\<close> and
  \<open>router_solicitation_interval\<close> between 1 and \<open>G_MAXINT32\<close> (the range of the two gint32
  properties), a \<open>nm_ndisc_start\<close> that passes its guards (the class has a start hook, no RA
  timeout is pending, the netns push succeeds) arms the first-RA timeout with exactly
  \<open>clamp (router_solicitations * router_solicitation_interval + 1, 30, 120)\<close> seconds: the
  gint64 product and sum do not wrap. When the timer fires, \<open>ndisc_ra_timeout_cb\<close> clears the
  slot and emits \<open>RA_TIMEOUT\<close>.
\<close>

theorem start_arms_first_ra_timeout:
  assumes "1 \<le> router_solicitations cfg" and "router_solicitations cfg \<le> G_MAXINT32"
    and "1 \<le> router_solicitation_interval cfg"
    and "router_solicitation_interval cfg \<le> G_MAXINT32"
    and "ra_timeout_id priv = None"
  shows "ra_timeout_id (nm_ndisc_start cfg clk True True priv) =
           Some (nat (max 30 (min 120
             (router_solicitations cfg * router_solicitation_interval cfg + 1))))
         \<and> ra_timeout_id (ndisc_ra_timeout_cb (nm_ndisc_start cfg clk True True priv)) = None
         \<and> effects (ndisc_ra_timeout_cb (nm_ndisc_start cfg clk True True priv)) =
             effects (nm_ndisc_start cfg clk True True priv) @ [RA_TIMEOUT]"
proof -
  let ?x = "router_solicitations cfg * router_solicitation_interval cfg + 1"
  have w: "s64 (s64 (router_solicitations cfg * router_solicitation_interval cfg) + 1) = ?x"
    using assms(1-4) by (rule ra_wait_secs_exact)
  have c: "CLAMP ?x 30 120 = max 30 (min 120 ?x)"
    by (simp add: CLAMP_def)
  have u: "u32 (max 30 (min 120 ?x)) = nat (max 30 (min 120 ?x))"
    by (simp add: u32_def)
  show ?thesis
    using assms(5) by (simp add: nm_ndisc_start_def ndisc_ra_timeout_cb_def Let_def w c u)
qed

theorem start_arms_first_ra_timeout_witness:
  "ra_timeout_id (nm_ndisc_start example_config 0 True True nm_ndisc_init) = Some 30
   \<and> ra_timeout_id (nm_ndisc_start
         (example_config\<lparr>router_solicitations := 20, router_solicitation_interval := 5\<rparr>)
         0 True True nm_ndisc_init) = Some 101
   \<and> ra_timeout_id (ndisc_ra_timeout_cb
         (nm_ndisc_start example_config 0 True True nm_ndisc_init)) = None"
  using start_arms_first_ra_timeout [of example_config nm_ndisc_init 0]
    start_arms_first_ra_timeout
      [of "example_config\<lparr>router_solicitations := 20, router_solicitation_interval := 5\<rparr>"
          nm_ndisc_init 0]
  by (simp add: example_config_def nm_ndisc_init_def G_MAXINT32_def)

text \<open>
  Claim C10 (the re-arm assertion never fails). After the five clean passes of a sweep at
  time \<open>now\<close>, a next-event deadline other than \<open>never\<close> is strictly greater than \<open>now\<close>; then
  \<open>check_timestamps\<close> arms the sweep timer with \<open>nextevent - now\<close> seconds, and in no case does
  it fail its \<open>g_return_if_fail\<close>. This holds for every state of the arrays.
\<close>

theorem sweep_deadline_in_future:
  "(snd (snd (clean_passes cfg clk now changed priv)) \<noteq> never
      \<longrightarrow> now < snd (snd (clean_passes cfg clk now changed priv))
          \<and> timeout_id (check_timestamps cfg clk now changed priv)
              = Some (unat (snd (snd (clean_passes cfg clk now changed priv)) - now)))
   \<and> (\<forall>msg. CRITICAL msg \<notin> set (new_effects priv (check_timestamps cfg clk now changed priv)))"
proof -
  have "snd (snd (clean_passes cfg clk now changed priv)) = never
        \<or> now < snd (snd (clean_passes cfg clk now changed priv))"
    by (rule nextevent_clean_passes)
  moreover have "\<forall>msg. CRITICAL msg \<notin> set (new_effects priv (check_timestamps cfg clk now changed priv))"
    by (simp add: new_effects_def effects_check_timestamps)
  ultimately show ?thesis
    by (auto simp add: timeout_check_timestamps)
qed

theorem sweep_deadline_in_future_witness:
  "snd (snd (clean_passes example_config 1 1 {} swept_example)) \<noteq> never
   \<and> (1 :: guint32) < snd (snd (clean_passes example_config 1 1 {} swept_example))
   \<and> timeout_id (check_timestamps example_config 1 1 {} swept_example) = Some 1799"
proof -
  have "snd (snd (clean_passes example_config 1 1 {} swept_example)) = 1800"
    by (simp add: clean_passes_def clean_gateways_def clean_addresses_def clean_routes_def
          clean_dns_servers_def clean_dns_domains_def swept_example_eval
          nm_ndisc_init_def gw_high_def G_MAXUINT32_def never_def)
  then show ?thesis
    using sweep_deadline_in_future [of example_config 1 1 "{}" swept_example]
    by (simp add: never_def)
qed

end
